theory Spec2Isabelle
  imports Main "HOL-Library.Sublist"
begin

section \<open>fillstruct: the zero-value synthesis of cmd/fillstruct/main.go\<close>

text \<open>
  The development embeds \<^verbatim>\<open>zeroValue\<close>, \<^verbatim>\<open>filler.zero\<close>, \<^verbatim>\<open>filler.fixExprPos\<close>,
  \<^verbatim>\<open>isImported\<close>, \<^verbatim>\<open>hideType\<close>, \<^verbatim>\<open>byOffset\<close> and \<^verbatim>\<open>byLine\<close> of
  \<^verbatim>\<open>cmd/fillstruct/main.go\<close>. Pointers of the Go program become identities
  (natural numbers), panics and running without end become values of \<open>error\<close>, and the
  mutable \<^verbatim>\<open>filler\<close> is a record passed in and returned.
\<close>

subsection \<open>Types of go/types\<close>

text \<open>
  \<^verbatim>\<open>*types.Package\<close>, \<^verbatim>\<open>*types.Named\<close> and \<^verbatim>\<open>*types.Struct\<close> are compared by
  pointer in the source; a package is \<open>None\<close> for the nil pointer (objects of the
  universe scope have no package).
\<close>

type_synonym pkg = "nat option"
type_synonym tname = nat
type_synonym sid = nat

datatype basic_kind =
    Invalid
  | Bool | Int' | Int8 | Int16 | Int32 | Int64
  | Uint | Uint8 | Uint16 | Uint32 | Uint64 | Uintptr
  | Float32 | Float64 | Complex64 | Complex128
  | String | UnsafePointer
  | UntypedBool | UntypedInt | UntypedRune | UntypedFloat
  | UntypedComplex | UntypedString | UntypedNil

text \<open>
  A \<open>Named n\<close> is the pointer to a declared type; what it declares is looked up in
  the type graph (\<open>named\<close> below), so a declared type can reach itself.
  \<open>Struct s fs\<close> is the struct type object at address \<open>s\<close> with fields \<open>fs\<close>.
  \<open>Tuple\<close> stands for the type kinds that \<^verbatim>\<open>zero\<close> has no case for.
  \<open>exported\<close> is \<^verbatim>\<open>field.Exported()\<close>, which go/types decides from the name.
  The kind \<^verbatim>\<open>types.Int\<close> is written \<open>Int'\<close>.
\<close>

datatype ty =
    Basic basic_kind
  | Chan ty
  | Interface
  | Map ty ty
  | Signature
  | Slice ty
  | Array ty int
  | Named tname
  | Pointer ty
  | Struct sid "field list"
  | Tuple
and field = Field (fname: string) (exported: bool) (ftype: ty)

record named_decl =
  obj_pkg :: pkg
  nunderlying :: ty

text \<open>
  What the synthesis takes from its surroundings:
  \<^item> \<open>named\<close>: the declared types (\<^verbatim>\<open>n.Obj().Pkg()\<close> and \<^verbatim>\<open>n.Underlying()\<close>);
  \<^item> \<open>typeString\<close>: the function \<^verbatim>\<open>typeString(pkg, typ) (string, bool)\<close>, whose
    definition is in another file of the package; \<open>None\<close> is \<^verbatim>\<open>ok == false\<close>;
  \<^item> \<open>colonOperand\<close>: when the operand \<^verbatim>\<open>f.pos\<close> of \<^verbatim>\<open>Colon: f.pos\<close> in the map
    case is read. Go orders the two calls of \<^verbatim>\<open>f.zero\<close> in the literal, but leaves
    open when a variable between them is read: before both calls, where it stands in
    the source, or after both.
\<close>

datatype operand_order = BeforeCalls | Lexical | AfterCalls

record world =
  named :: "tname \<Rightarrow> named_decl"
  typeString :: "pkg \<Rightarrow> ty \<Rightarrow> string option"
  colonOperand :: operand_order

fun Underlying :: "world \<Rightarrow> ty \<Rightarrow> ty" where
  "Underlying w (Named n) = nunderlying (named w n)"
| "Underlying w t = t"

fun isStruct :: "ty \<Rightarrow> bool" where
  "isStruct (Struct s fs) = True"
| "isStruct t = False"

fun asNamed :: "ty \<Rightarrow> tname option" where
  "asNamed (Named n) = Some n"
| "asNamed t = None"

subsection \<open>Expressions of go/ast\<close>

text \<open>
  \<open>pos\<close> is \<^verbatim>\<open>token.Pos\<close>; 0 is \<^verbatim>\<open>token.NoPos\<close>. The constructors carry the
  fields of the go/ast node in its order; an \<open>expr option\<close> is a field that may be nil.
  Of a function literal only \<^verbatim>\<open>Type.Func\<close> is kept.
\<close>

type_synonym pos = int

datatype expr =
    BadExpr pos pos
  | Ident pos string
  | Ellipsis pos "expr option"
  | BasicLit pos string
  | FuncLit pos
  | CompositeLit "expr option" pos "expr list" pos
  | ParenExpr pos expr pos
  | SelectorExpr expr pos string
  | IndexExpr expr pos expr pos
  | SliceExpr expr pos "expr option" "expr option" "expr option" pos
  | TypeAssertExpr expr pos "expr option" pos
  | CallExpr expr pos "expr list" pos
  | StarExpr pos expr
  | UnaryExpr pos string expr
  | BinaryExpr expr pos string expr
  | KeyValueExpr "expr option" pos "expr option"
  | ArrayType pos "expr option" expr
  | MapType pos expr expr

subsection \<open>The filler\<close>

record litInfo =
  ltyp :: ty
  name :: "tname option"
  hideType :: bool
  isPointer :: bool

record filler =
  pkg :: pkg
  pos :: pos
  lines :: int
  existing :: "string \<rightharpoonup> expr"
  first :: bool

text \<open>
  How a call can fail to return a value: the bound on the nesting of calls is used up,
  a panic, or one of the errors that \<^verbatim>\<open>byOffset\<close> and \<^verbatim>\<open>byLine\<close> return
  (\<^verbatim>\<open>errNotFound\<close>, "could not find file", "file size is smaller than given
  offset", an error of \<^verbatim>\<open>format.Node\<close>).
\<close>

datatype error =
    OutOfFuel
  | PanicTypeAssertion
  | PanicUnexpectedType
  | PanicMakeSlice
  | PanicNilDereference
  | PanicIndexOutOfRange
  | ErrNotFound
  | ErrNoFile
  | ErrFileSize
  | ErrFormat

subsection \<open>fixExprPos\<close>

text \<open>
  \<^verbatim>\<open>filler.fixExprPos\<close> (lines 284 to 346 of main.go). The source writes the positions into the nodes; the model returns the rewritten node
  with the filler. \<open>fixExprPos_nil\<close> is the call on a field that may be nil,
  \<open>fixArgs\<close> the loop over \<^verbatim>\<open>expr.Args\<close>, \<open>fixElts\<close> the loop over \<^verbatim>\<open>expr.Elts\<close>.
  The switch has no default: a node of any other kind is left as it is.
\<close>

fun fixExprPos :: "expr \<Rightarrow> filler \<Rightarrow> expr \<times> filler"
  and fixExprPos_nil :: "expr option \<Rightarrow> filler \<Rightarrow> expr option \<times> filler"
  and fixArgs :: "expr list \<Rightarrow> filler \<Rightarrow> expr list \<times> filler"
  and fixElts :: "expr list \<Rightarrow> filler \<Rightarrow> expr list \<times> filler"
where
  "fixExprPos (BasicLit p v) f = (BasicLit (pos f) v, f)"
| "fixExprPos (BinaryExpr x p op y) f =
     (case fixExprPos x f of (x', f1) \<Rightarrow>
      case fixExprPos y f1 of (y', f2) \<Rightarrow>
        (BinaryExpr x' (pos f1) op y', f2))"
| "fixExprPos (CallExpr fn lp args rp) f =
     (case fixExprPos fn f of (fn', f1) \<Rightarrow>
      case fixArgs args f1 of (args', f2) \<Rightarrow>
        (CallExpr fn' (pos f1) args' (pos f2), f2))"
| "fixExprPos (CompositeLit t lb elts rb) f =
     (case fixExprPos_nil t f of (t', f1) \<Rightarrow>
      case fixElts elts f1 of (elts', f2) \<Rightarrow>
        (let f3 = (if length elts > 0
                   then f2\<lparr>lines := lines f2 + int (length elts) + 2\<rparr> else f2);
             f4 = f3\<lparr>pos := pos f3 + 1\<rparr>
         in (CompositeLit t' (pos f1) elts' (pos f4), f4)))"
| "fixExprPos (Ellipsis p e) f = (Ellipsis (pos f) e, f)"
| "fixExprPos (FuncLit p) f = (FuncLit (pos f), f)"
| "fixExprPos (Ident p n) f = (Ident (pos f) n, f)"
| "fixExprPos (IndexExpr x lb i rb) f =
     (case fixExprPos x f of (x', f1) \<Rightarrow>
      case fixExprPos i f1 of (i', f2) \<Rightarrow>
        (IndexExpr x' (pos f1) i' (pos f2), f2))"
| "fixExprPos (KeyValueExpr k c v) f =
     (case fixExprPos_nil k f of (k', f1) \<Rightarrow>
      case fixExprPos_nil v f1 of (v', f2) \<Rightarrow>
        (KeyValueExpr k' c v', f2))"
| "fixExprPos (ParenExpr lp x rp) f = (ParenExpr (pos f) x rp, f)"
| "fixExprPos (SelectorExpr x p n) f =
     (case fixExprPos x f of (x', f1) \<Rightarrow> (SelectorExpr x' (pos f1) n, f1))"
| "fixExprPos (SliceExpr x lb lo hi mx rb) f =
     (case fixExprPos x f of (x', f1) \<Rightarrow>
      case fixExprPos_nil lo f1 of (lo', f2) \<Rightarrow>
      case fixExprPos_nil hi f2 of (hi', f3) \<Rightarrow>
      case fixExprPos_nil mx f3 of (mx', f4) \<Rightarrow>
        (SliceExpr x' (pos f1) lo' hi' mx' (pos f4), f4))"
| "fixExprPos (StarExpr p x) f =
     (case fixExprPos x f of (x', f1) \<Rightarrow> (StarExpr (pos f) x', f1))"
| "fixExprPos (UnaryExpr p op x) f =
     (case fixExprPos x f of (x', f1) \<Rightarrow> (UnaryExpr (pos f) op x', f1))"
| "fixExprPos (BadExpr a b) f = (BadExpr a b, f)"
| "fixExprPos (TypeAssertExpr x lp t rp) f = (TypeAssertExpr x lp t rp, f)"
| "fixExprPos (ArrayType lb n e) f = (ArrayType lb n e, f)"
| "fixExprPos (MapType p k v) f = (MapType p k v, f)"
| "fixExprPos_nil None f = (None, f)"
| "fixExprPos_nil (Some e) f = (case fixExprPos e f of (e', f1) \<Rightarrow> (Some e', f1))"
| "fixArgs [] f = ([], f)"
| "fixArgs (a # as) f =
     (case fixExprPos a f of (a', f1) \<Rightarrow>
      case fixArgs as f1 of (as', f2) \<Rightarrow> (a' # as', f2))"
| "fixElts [] f = ([], f)"
| "fixElts (e # es) f =
     (case fixExprPos e (f\<lparr>pos := pos f + 1\<rparr>) of (e', f1) \<Rightarrow>
      case fixElts es f1 of (es', f2) \<Rightarrow> (e' # es', f2))"

subsection \<open>zero\<close>

text \<open>
  \<^verbatim>\<open>filler.zero\<close> (lines 116 to 282 of main.go), one definition for each case of
  its type switch that is more than a line. First \<^verbatim>\<open>strconv.FormatInt(n, 10)\<close>, the
  decimal digits of an integer, and \<^verbatim>\<open>isImported\<close> (lines 348 to 350).
\<close>

function FormatUint :: "nat \<Rightarrow> string" where
  "FormatUint n =
     (if n < 10 then [''0123456789'' ! n]
      else FormatUint (n div 10) @ [''0123456789'' ! (n mod 10)])"
  by pat_completeness auto
termination
  by (relation "measure (\<lambda>n. n)") auto

definition FormatInt :: "int \<Rightarrow> string" where
  "FormatInt i = (if i < 0 then CHR ''-'' # FormatUint (nat (- i)) else FormatUint (nat i))"

definition isImported :: "world \<Rightarrow> pkg \<Rightarrow> tname option \<Rightarrow> bool" where
  "isImported w p n = (case n of None \<Rightarrow> False | Some nm \<Rightarrow> p \<noteq> obj_pkg (named w nm))"

text \<open>
  The result of \<^verbatim>\<open>zero\<close>: \<open>Inl\<close> when the call panics or does not return,
  otherwise the expression (\<open>None\<close> is the nil expression) and the filler after the call.
\<close>

type_synonym zres = "error + (expr option \<times> filler)"
type_synonym zcall = "litInfo \<Rightarrow> sid list \<Rightarrow> filler \<Rightarrow> zres"

text \<open>
  The identifier \<^verbatim>\<open>nil\<close> at the current position, and the case of a basic type
  (lines 118 to 139), where the default of the inner switch returns nil.
\<close>

definition nilIdent :: "filler \<Rightarrow> zres" where
  "nilIdent f = Inr (Some (Ident (pos f) ''nil''), f)"

definition zeroBasic :: "basic_kind \<Rightarrow> filler \<Rightarrow> zres" where
  "zeroBasic k f =
     (if k = Bool then Inr (Some (Ident (pos f) ''false''), f)
      else if k \<in> {Int', Int8, Int16, Int32, Int64} then Inr (Some (BasicLit (pos f) ''0''), f)
      else if k \<in> {Uint, Uint8, Uint16, Uint32, Uint64} then Inr (Some (BasicLit (pos f) ''0''), f)
      else if k = Uintptr then Inr (Some (BasicLit (pos f) ''uintptr(0)''), f)
      else if k = UnsafePointer
        then Inr (Some (BasicLit (pos f) ''unsafe.Pointer(uintptr(0))''), f)
      else if k \<in> {Float32, Float64} then Inr (Some (BasicLit (pos f) ''0.0''), f)
      else if k \<in> {Complex64, Complex128} then Inr (Some (BasicLit (pos f) ''(0 + 0i)''), f)
      else if k = String then Inr (Some (BasicLit (pos f) [CHR 0x22, CHR 0x22]), f)
      else Inr (None, f))"

text \<open>
  The map case after both type names are known (lines 153 to 172). \<open>rec\<close> is the
  recursive call \<^verbatim>\<open>f.zero\<close>.
\<close>

definition zeroMap :: "world \<Rightarrow> zcall \<Rightarrow> litInfo \<Rightarrow> sid list \<Rightarrow> ty \<Rightarrow> ty \<Rightarrow>
    string \<Rightarrow> string \<Rightarrow> filler \<Rightarrow> zres" where
  "zeroMap w rec info visited k v keyTypeName valTypeName f =
     (let f1 = f\<lparr>pos := pos f + 1\<rparr> in
      case rec \<lparr>ltyp = k, name = name info, hideType = True, isPointer = False\<rparr> visited f1 of
        Inl e \<Rightarrow> Inl e
      | Inr (key, f2) \<Rightarrow>
         (case rec \<lparr>ltyp = v, name = name info, hideType = True, isPointer = False\<rparr> visited f2 of
            Inl e \<Rightarrow> Inl e
          | Inr (val, f3) \<Rightarrow>
             (let colon = (case colonOperand w of
                             BeforeCalls \<Rightarrow> pos f1 | Lexical \<Rightarrow> pos f2 | AfterCalls \<Rightarrow> pos f3);
                  f4 = f3\<lparr>pos := pos f3 + 1\<rparr>;
                  f5 = f4\<lparr>lines := lines f4 + 2\<rparr>
              in Inr (Some (CompositeLit
                        (Some (MapType (pos f) (Ident 0 keyTypeName) (Ident 0 valTypeName)))
                        (pos f) [KeyValueExpr key colon val] (pos f4)), f5))))"

text \<open>
  The array case (lines 178 to 203): its loop, with \<open>k\<close> iterations still to run, and
  the case itself. \<^verbatim>\<open>make\<close> panics when the capacity \<^verbatim>\<open>t.Len()\<close> is negative.
\<close>

fun arrayElts :: "zcall \<Rightarrow> litInfo \<Rightarrow> sid list \<Rightarrow> nat \<Rightarrow> expr list \<Rightarrow> filler \<Rightarrow>
    error + (expr list \<times> filler)" where
  "arrayElts rec elemInfo visited 0 elts f = Inr (elts, f)"
| "arrayElts rec elemInfo visited (Suc k) elts f =
     (case rec elemInfo visited (f\<lparr>pos := pos f + 1\<rparr>) of
        Inl e \<Rightarrow> Inl e
      | Inr (None, f1) \<Rightarrow> arrayElts rec elemInfo visited k elts f1
      | Inr (Some v, f1) \<Rightarrow> arrayElts rec elemInfo visited k (elts @ [v]) f1)"

definition zeroArray :: "world \<Rightarrow> zcall \<Rightarrow> litInfo \<Rightarrow> sid list \<Rightarrow> ty \<Rightarrow> int \<Rightarrow> filler \<Rightarrow> zres" where
  "zeroArray w rec info visited elem len f =
     (case (if \<not> hideType info
            then (case typeString w (pkg f) elem of
                    None \<Rightarrow> None
                  | Some typeName \<Rightarrow>
                      Some (Some (ArrayType (pos f) (Some (BasicLit 0 (FormatInt len)))
                                    (Ident 0 typeName))))
            else Some None) of
        None \<Rightarrow> Inr (None, f)
      | Some litType \<Rightarrow>
          if len < 0 then Inl PanicMakeSlice
          else
            (case arrayElts rec
                    \<lparr>ltyp = Underlying w elem, name = asNamed elem, hideType = True,
                     isPointer = False\<rparr> visited (nat len) [] f of
               Inl e \<Rightarrow> Inl e
             | Inr (elts, f1) \<Rightarrow>
                (let f2 = f1\<lparr>lines := lines f1 + int (length elts) + 2\<rparr>;
                     f3 = f2\<lparr>pos := pos f2 + 1\<rparr>
                 in Inr (Some (CompositeLit litType (pos f) elts (pos f3)), f3))))"

text \<open>
  The struct case (lines 220 to 277). First the loop over the fields (lines 251 to
  271), one field at a time. An element of \<^verbatim>\<open>newlit.Elts\<close> is a
  pointer, either to an entry of \<^verbatim>\<open>f.existing\<close> (tagged with its key) or to a new
  node (no tag). \<^verbatim>\<open>fixExprPos\<close> writes into the existing entry, so the entry in the
  map and every element that points to it change with it.
\<close>

type_synonym elt = "string option \<times> expr"

definition rewriteEntry :: "string \<Rightarrow> expr \<Rightarrow> elt list \<Rightarrow> elt list" where
  "rewriteEntry key kv elts = map (\<lambda>(tag, e). if tag = Some key then (tag, kv) else (tag, e)) elts"

definition structField :: "zcall \<Rightarrow> bool \<Rightarrow> bool \<Rightarrow> sid list \<Rightarrow> field \<Rightarrow>
    elt list \<Rightarrow> int \<Rightarrow> filler \<Rightarrow> error + (elt list \<times> int \<times> filler)" where
  "structField rec first' imported visited fld elts lns f =
     (let ok = (existing f (fname fld) \<noteq> None) in
      if first' \<and> ok then
        (case existing f (fname fld) of
           Some kv \<Rightarrow>
             (case fixExprPos kv (f\<lparr>pos := pos f + 1\<rparr>) of
                (kv', f1) \<Rightarrow>
                  Inr (rewriteEntry (fname fld) kv' elts @ [(Some (fname fld), kv')],
                       lns + 1,
                       f1\<lparr>existing := (existing f1)(fname fld \<mapsto> kv')\<rparr>))
         | None \<Rightarrow> Inr (elts, lns, f))
      else if \<not> ok \<and> \<not> imported \<or> exported fld then
        (let f1 = f\<lparr>pos := pos f + 1\<rparr>;
             k = Ident (pos f1) (fname fld) in
         case rec \<lparr>ltyp = ftype fld, name = None, hideType = False, isPointer = False\<rparr>
                visited f1 of
           Inl e \<Rightarrow> Inl e
         | Inr (Some v, f2) \<Rightarrow>
             Inr (elts @ [(None, KeyValueExpr (Some k) 0 (Some v))], lns + 1, f2)
         | Inr (None, f2) \<Rightarrow> Inr (elts, lns, f2\<lparr>pos := pos f2 - 1\<rparr>))
      else Inr (elts, lns, f))"

primrec structFields :: "zcall \<Rightarrow> bool \<Rightarrow> bool \<Rightarrow> sid list \<Rightarrow> field list \<Rightarrow>
    elt list \<times> int \<times> filler \<Rightarrow> error + (elt list \<times> int \<times> filler)" where
  "structFields rec first' imported visited [] acc = Inr acc"
| "structFields rec first' imported visited (fld # flds) acc =
     (case acc of (elts, lns, f) \<Rightarrow>
        (case structField rec first' imported visited fld elts lns f of
           Inl e \<Rightarrow> Inl e
         | Inr acc' \<Rightarrow> structFields rec first' imported visited flds acc'))"

text \<open>
  The type name of the new literal (lines 222 to 237), \<open>None\<close> when the case returns
  nil, and the struct case itself. A struct type found among the types visited returns
  the literal as it is then: no elements, no closing position, \<^verbatim>\<open>f.first\<close> untouched.
\<close>

definition structTypeName :: "world \<Rightarrow> litInfo \<Rightarrow> ty \<Rightarrow> filler \<Rightarrow> expr option option" where
  "structTypeName w info t f =
     (if \<not> hideType info \<and> name info \<noteq> None then
        (case name info of
           Some nm \<Rightarrow>
             (case typeString w (pkg f) (Named nm) of
                None \<Rightarrow> None
              | Some typeName \<Rightarrow>
                  Some (Some (Ident 0 (if isPointer info then ''&'' @ typeName else typeName))))
         | None \<Rightarrow> Some None)
      else if \<not> hideType info \<and> name info = None then
        (case typeString w (pkg f) t of
           None \<Rightarrow> None
         | Some typeName \<Rightarrow> Some (Some (Ident 0 typeName)))
      else Some None)"

definition zeroStruct :: "world \<Rightarrow> zcall \<Rightarrow> litInfo \<Rightarrow> sid list \<Rightarrow> sid \<Rightarrow> field list \<Rightarrow>
    filler \<Rightarrow> zres" where
  "zeroStruct w rec info visited s flds f =
     (case structTypeName w info (Struct s flds) f of
        None \<Rightarrow> Inr (None, f)
      | Some litType \<Rightarrow>
          if s \<in> set visited then Inr (Some (CompositeLit litType (pos f) [] 0), f)
          else
            (case structFields rec (first f) (isImported w (pkg f) (name info))
                    (visited @ [s]) flds ([], 0, f\<lparr>first := False\<rparr>) of
               Inl e \<Rightarrow> Inl e
             | Inr (elts, lns, f1) \<Rightarrow>
                (let f2 = (if lns > 0
                           then f1\<lparr>lines := lines f1 + (lns + 2), pos := pos f1 + 1\<rparr>
                           else f1)
                 in Inr (Some (CompositeLit litType (pos f) (map snd elts) (pos f2)), f2))))"

text \<open>One call of \<^verbatim>\<open>zero\<close>: the type switch, with \<open>rec\<close> for the recursive calls.\<close>

definition zeroBody :: "world \<Rightarrow> zcall \<Rightarrow> zcall" where
  "zeroBody w rec info visited f =
     (case ltyp info of
        Basic k \<Rightarrow> zeroBasic k f
      | Chan e \<Rightarrow> nilIdent f
      | Interface \<Rightarrow> nilIdent f
      | Map k v \<Rightarrow>
          (case typeString w (pkg f) k of
             None \<Rightarrow> Inr (None, f)
           | Some keyTypeName \<Rightarrow>
              (case typeString w (pkg f) v of
                 None \<Rightarrow> Inr (None, f)
               | Some valTypeName \<Rightarrow>
                   zeroMap w rec info visited k v keyTypeName valTypeName f))
      | Signature \<Rightarrow> nilIdent f
      | Slice e \<Rightarrow> nilIdent f
      | Array elem len \<Rightarrow> zeroArray w rec info visited elem len f
      | Named n \<Rightarrow>
          rec (info\<lparr>name := (if isStruct (Underlying w (Named n)) then Some n else name info),
                    ltyp := Underlying w (Named n)\<rparr>) visited f
      | Pointer elem \<Rightarrow>
          if isStruct (Underlying w elem)
          then rec (info\<lparr>ltyp := elem, isPointer := True\<rparr>) visited f
          else nilIdent f
      | Struct s flds \<Rightarrow> zeroStruct w rec info visited s flds f
      | Tuple \<Rightarrow> Inl PanicUnexpectedType)"

text \<open>
  \<^verbatim>\<open>zero\<close> calls itself through the type graph, so the model counts the nesting of
  calls: \<open>zero w n\<close> is the call that may nest \<open>n\<close> deep, and \<open>Inl OutOfFuel\<close> says
  that the nesting went deeper.
\<close>

primrec zero :: "world \<Rightarrow> nat \<Rightarrow> zcall" where
  "zero w 0 = (\<lambda>info visited f. Inl OutOfFuel)"
| "zero w (Suc n) = zeroBody w (zero w n)"

subsection \<open>zeroValue\<close>

text \<open>
  \<^verbatim>\<open>zeroValue\<close> (lines 102 to 114). The loop that fills \<^verbatim>\<open>f.existing\<close>; both type assertions panic on a value
  of another type, and on nil.
\<close>

fun existingEntries :: "expr list \<Rightarrow> (string \<rightharpoonup> expr) \<Rightarrow> error + (string \<rightharpoonup> expr)" where
  "existingEntries [] m = Inr m"
| "existingEntries (KeyValueExpr (Some (Ident p nm)) c v # es) m =
     existingEntries es (m(nm \<mapsto> KeyValueExpr (Some (Ident p nm)) c v))"
| "existingEntries (e # es) m = Inl PanicTypeAssertion"

text \<open>
  \<open>lit_Elts\<close> is \<^verbatim>\<open>lit.Elts\<close>, all that \<^verbatim>\<open>zeroValue\<close> reads of \<^verbatim>\<open>lit\<close>.
  The first argument is the bound on the nesting of \<^verbatim>\<open>zero\<close>.
\<close>

definition zeroValue :: "world \<Rightarrow> nat \<Rightarrow> pkg \<Rightarrow> expr list \<Rightarrow> litInfo \<Rightarrow>
    error + (expr option \<times> int)" where
  "zeroValue w n p lit_Elts info =
     (case existingEntries lit_Elts Map.empty of
        Inl e \<Rightarrow> Inl e
      | Inr ex \<Rightarrow>
         (case zero w n info []
                 \<lparr>pkg = p, pos = 1, lines = 0, existing = ex, first = True\<rparr> of
            Inl e \<Rightarrow> Inl e
          | Inr (e, f) \<Rightarrow> Inr (e, lines f)))"

subsection \<open>The drivers byOffset and byLine\<close>

record "output" =
  Start :: int
  End :: int
  Code :: string

text \<open>
  \<^verbatim>\<open>hideType\<close> (lines 555 to 566); the argument is nil in \<^verbatim>\<open>byLine\<close> until a
  literal set it.
\<close>

fun hideTypeOf :: "ty option \<Rightarrow> bool" where
  "hideTypeOf (Some (Array e n)) = True"
| "hideTypeOf (Some (Map k v)) = True"
| "hideTypeOf (Some (Slice e)) = True"
| "hideTypeOf t = False"

text \<open>
  \<^verbatim>\<open>prepareOutput\<close> (lines 574 to 590). The printer \<^verbatim>\<open>format.Node\<close> is outside the program: it is
  the parameter \<open>formatNode\<close>, from the expression and the number of lines to the
  text, \<open>None\<close> when it returns an error.
\<close>

type_synonym printer = "expr option \<Rightarrow> int \<Rightarrow> string option"

definition prepareOutput :: "printer \<Rightarrow> expr option \<Rightarrow> int \<Rightarrow> int \<Rightarrow> int \<Rightarrow> error + output" where
  "prepareOutput formatNode n lns start end' =
     (case formatNode n lns of
        None \<Rightarrow> Inl ErrFormat
      | Some code \<Rightarrow> Inr \<lparr>Start = start, End = end', Code = code\<rparr>)"

text \<open>
  A composite literal of the file with what the loader knows of it:
  \<^verbatim>\<open>lit.Elts\<close>, the type \<^verbatim>\<open>pkg.Types[lit].Type\<close> (nil when the checker recorded
  none) and the positions of \<^verbatim>\<open>lit.Pos()\<close> and \<^verbatim>\<open>lit.End()\<close>.
\<close>

record litSite =
  site_Elts :: "expr list"
  site_type :: "ty option"
  startLine :: int
  endLine :: int
  startOff :: int
  endOff :: int

text \<open>
  The syntax tree as \<^verbatim>\<open>ast.Inspect\<close> walks it: a node is a composite literal or
  not, and has its children in the order of the walk (depth first, \<^verbatim>\<open>f(n)\<close> before
  the children of \<open>n\<close>, the children skipped when \<^verbatim>\<open>f(n)\<close> is false).
\<close>

datatype node = Node "litSite option" "node list"

type_synonym lineState = "output list \<times> ty option \<times> error option"

text \<open>
  The function literal that \<^verbatim>\<open>byLine\<close> hands to \<^verbatim>\<open>ast.Inspect\<close> (lines 507 to
  539), at a composite literal; at any other node it returns true and changes nothing.
  The state is \<^verbatim>\<open>outs\<close>, \<^verbatim>\<open>prev\<close> and \<^verbatim>\<open>err\<close>.
\<close>

definition visitLit :: "world \<Rightarrow> nat \<Rightarrow> printer \<Rightarrow> pkg \<Rightarrow> int \<Rightarrow> litSite \<Rightarrow> lineState \<Rightarrow>
    error + (bool \<times> lineState)" where
  "visitLit w n formatNode p line site st =
     (case st of (outs, prev, err) \<Rightarrow>
        if \<not> (startLine site \<le> line \<and> line \<le> endLine site) then Inr (True, (outs, prev, err))
        else
          (case site_type site of
             None \<Rightarrow> Inl PanicNilDereference
           | Some t \<Rightarrow>
               if \<not> isStruct (Underlying w t)
               then Inr (True, (outs, Some (Underlying w t), Some ErrNotFound))
               else
                 (case zeroValue w n p (site_Elts site)
                         \<lparr>ltyp = Underlying w t, name = asNamed t,
                          hideType = hideTypeOf prev, isPointer = False\<rparr> of
                    Inl e \<Rightarrow> Inl e
                  | Inr (newlit, lns) \<Rightarrow>
                     (case prepareOutput formatNode newlit lns (startOff site) (endOff site) of
                        Inl e \<Rightarrow> Inr (False, (outs, prev, Some e))
                      | Inr out \<Rightarrow> Inr (False, (outs @ [out], prev, None))))))"

fun Inspect :: "(litSite \<Rightarrow> lineState \<Rightarrow> error + (bool \<times> lineState)) \<Rightarrow> node \<Rightarrow> lineState \<Rightarrow>
    error + lineState"
  and InspectList :: "(litSite \<Rightarrow> lineState \<Rightarrow> error + (bool \<times> lineState)) \<Rightarrow> node list \<Rightarrow>
    lineState \<Rightarrow> error + lineState"
where
  "Inspect fn (Node None cs) st = InspectList fn cs st"
| "Inspect fn (Node (Some site) cs) st =
     (case fn site st of
        Inl e \<Rightarrow> Inl e
      | Inr (descend, st') \<Rightarrow> if descend then InspectList fn cs st' else Inr st')"
| "InspectList fn [] st = Inr st"
| "InspectList fn (c # cs) st =
     (case Inspect fn c st of
        Inl e \<Rightarrow> Inl e
      | Inr st' \<Rightarrow> InspectList fn cs st')"

text \<open>
  The loop that reverses \<^verbatim>\<open>outs\<close> in place (lines 547 to 550): \<open>swapOuts k\<close> runs the iterations
  \<open>i = k - 1, ..., 0\<close>, each swapping \<^verbatim>\<open>outs[i]\<close> and \<^verbatim>\<open>outs[len(outs)-1-i]\<close>.
\<close>

fun swapOuts :: "nat \<Rightarrow> 'a list \<Rightarrow> 'a list" where
  "swapOuts 0 outs = outs"
| "swapOuts (Suc i) outs =
     swapOuts i (let opp = length outs - 1 - i in outs[i := outs ! opp, opp := outs ! i])"

text \<open>
  \<^verbatim>\<open>byLine\<close> (lines 494 to 553); \<open>file\<close> is the syntax tree of the file named \<^verbatim>\<open>path\<close>, \<open>None\<close>
  when no file of the package has that name. The result is what is encoded to the
  standard output.
\<close>

definition byLine :: "world \<Rightarrow> nat \<Rightarrow> printer \<Rightarrow> pkg \<Rightarrow> node option \<Rightarrow> int \<Rightarrow> error + output list" where
  "byLine w n formatNode p file line =
     (case file of
        None \<Rightarrow> Inl ErrNoFile
      | Some root \<Rightarrow>
         (case Inspect (visitLit w n formatNode p line) root ([], None, None) of
            Inl e \<Rightarrow> Inl e
          | Inr (outs, prev, err) \<Rightarrow>
             (case err of
                Some e \<Rightarrow> Inl e
              | None \<Rightarrow>
                  if length outs = 0 then Inl ErrNotFound
                  else Inr (swapOuts (length outs div 2) outs))))"

text \<open>
  \<^verbatim>\<open>byOffset\<close> (lines 438 to 458), with \<^verbatim>\<open>findPos\<close> (lines 460 to 473) on the
  file reduced to its size (\<open>None\<close>: no file of that name), and
  \<^verbatim>\<open>findCompositeLit\<close> (lines 475 to 492) on the path that \<^verbatim>\<open>astutil.PathEnclosingInterval\<close>
  returns, innermost node first. A node of the path is a composite literal, another
  expression with the type recorded for it, or no expression.
\<close>

datatype pathNode = LitNode litSite | ExprNode "ty option" | OtherNode

definition findPos :: "int option \<Rightarrow> int \<Rightarrow> error + int" where
  "findPos fileSize off =
     (case fileSize of
        None \<Rightarrow> Inl ErrNoFile
      | Some sz \<Rightarrow> if off > sz then Inl ErrFileSize else Inr off)"

fun findCompositeLit :: "world \<Rightarrow> pathNode list \<Rightarrow> error + (litSite \<times> litInfo)" where
  "findCompositeLit w [] = Inl ErrNotFound"
| "findCompositeLit w (LitNode site # rest) =
     (case site_type site of
        None \<Rightarrow> Inl PanicNilDereference
      | Some t \<Rightarrow>
          if \<not> isStruct (Underlying w t) then Inl ErrNotFound
          else
            (case rest of
               [] \<Rightarrow> Inl PanicIndexOutOfRange
             | LitNode parent # outer \<Rightarrow>
                 Inr (site, \<lparr>ltyp = Underlying w t, name = asNamed t,
                             hideType = hideTypeOf (site_type parent), isPointer = False\<rparr>)
             | ExprNode pt # outer \<Rightarrow>
                 Inr (site, \<lparr>ltyp = Underlying w t, name = asNamed t,
                             hideType = hideTypeOf pt, isPointer = False\<rparr>)
             | OtherNode # outer \<Rightarrow>
                 Inr (site, \<lparr>ltyp = Underlying w t, name = asNamed t,
                             hideType = False, isPointer = False\<rparr>)))"
| "findCompositeLit w (nd # rest) = findCompositeLit w rest"

definition byOffset :: "world \<Rightarrow> nat \<Rightarrow> printer \<Rightarrow> pkg \<Rightarrow> int option \<Rightarrow> pathNode list \<Rightarrow> int \<Rightarrow>
    error + output list" where
  "byOffset w n formatNode p fileSize path offset =
     (case findPos fileSize offset of
        Inl e \<Rightarrow> Inl e
      | Inr ps \<Rightarrow>
         (case findCompositeLit w path of
            Inl e \<Rightarrow> Inl e
          | Inr (site, info) \<Rightarrow>
             (case zeroValue w n p (site_Elts site) info of
                Inl e \<Rightarrow> Inl e
              | Inr (newlit, lns) \<Rightarrow>
                 (case prepareOutput formatNode newlit lns (startOff site) (endOff site) of
                    Inl e \<Rightarrow> Inl e
                  | Inr out \<Rightarrow> Inr [out]))))"

subsection \<open>Notions used to state the properties\<close>

text \<open>An element of a literal that both type assertions of \<^verbatim>\<open>zeroValue\<close> accept.\<close>

fun keyedByIdent :: "expr \<Rightarrow> bool" where
  "keyedByIdent (KeyValueExpr (Some (Ident p nm)) c v) = True"
| "keyedByIdent e = False"

text \<open>
  The structure of an expression: the expression with every position set to
  \<^verbatim>\<open>token.NoPos\<close>.
\<close>

primrec stripPos :: "expr \<Rightarrow> expr" where
  "stripPos (BadExpr a b) = BadExpr 0 0"
| "stripPos (Ident p n) = Ident 0 n"
| "stripPos (Ellipsis p e) = Ellipsis 0 (map_option stripPos e)"
| "stripPos (BasicLit p v) = BasicLit 0 v"
| "stripPos (FuncLit p) = FuncLit 0"
| "stripPos (CompositeLit t lb elts rb) =
     CompositeLit (map_option stripPos t) 0 (map stripPos elts) 0"
| "stripPos (ParenExpr lp x rp) = ParenExpr 0 (stripPos x) 0"
| "stripPos (SelectorExpr x p n) = SelectorExpr (stripPos x) 0 n"
| "stripPos (IndexExpr x lb i rb) = IndexExpr (stripPos x) 0 (stripPos i) 0"
| "stripPos (SliceExpr x lb lo hi mx rb) =
     SliceExpr (stripPos x) 0 (map_option stripPos lo) (map_option stripPos hi)
       (map_option stripPos mx) 0"
| "stripPos (TypeAssertExpr x lp t rp) = TypeAssertExpr (stripPos x) 0 (map_option stripPos t) 0"
| "stripPos (CallExpr fn lp args rp) = CallExpr (stripPos fn) 0 (map stripPos args) 0"
| "stripPos (StarExpr p x) = StarExpr 0 (stripPos x)"
| "stripPos (UnaryExpr p op x) = UnaryExpr 0 op (stripPos x)"
| "stripPos (BinaryExpr x p op y) = BinaryExpr (stripPos x) 0 op (stripPos y)"
| "stripPos (KeyValueExpr k c v) = KeyValueExpr (map_option stripPos k) 0 (map_option stripPos v)"
| "stripPos (ArrayType lb n e) = ArrayType 0 (map_option stripPos n) (stripPos e)"
| "stripPos (MapType p k v) = MapType 0 (stripPos k) (stripPos v)"



text \<open>The elements of a composite literal (no elements for another expression).\<close>

fun Elts :: "expr \<Rightarrow> expr list" where
  "Elts (CompositeLit t lb elts rb) = elts"
| "Elts e = []"

fun isCompositeLit :: "expr \<Rightarrow> bool" where
  "isCompositeLit (CompositeLit t lb elts rb) = True"
| "isCompositeLit e = False"

text \<open>
  \<open>newEntry nm e\<close>: \<open>e\<close> is an entry as the struct case builds it for the field
  \<open>nm\<close>, the key an identifier \<open>nm\<close>, no colon position, a value that is not nil.
\<close>

fun newEntry :: "string \<Rightarrow> expr \<Rightarrow> bool" where
  "newEntry nm (KeyValueExpr (Some (Ident p k)) c (Some v)) = (k = nm \<and> c = 0)"
| "newEntry nm e = False"

text \<open>
  The filler that \<^verbatim>\<open>zeroValue\<close> starts from when the literal has no entries, and
  \<open>valueInfo\<close>, the \<^verbatim>\<open>litInfo\<close> that the struct case builds for a field of type \<open>t\<close>.
\<close>

definition newFiller :: "pkg \<Rightarrow> filler" where
  "newFiller p = \<lparr>pkg = p, pos = 1, lines = 0, existing = Map.empty, first = True\<rparr>"

definition valueInfo :: "ty \<Rightarrow> litInfo" where
  "valueInfo t = \<lparr>ltyp = t, name = None, hideType = False, isPointer = False\<rparr>"

text \<open>
  \<open>nilDefault w n p info\<close>: the call of \<^verbatim>\<open>zero\<close> for \<open>info\<close> in package \<open>p\<close>
  returns the nil expression.
\<close>

definition nilDefault :: "world \<Rightarrow> nat \<Rightarrow> pkg \<Rightarrow> litInfo \<Rightarrow> bool" where
  "nilDefault w n p info =
     (case zero w n info [] (newFiller p) of
        Inl e \<Rightarrow> False
      | Inr (None, f) \<Rightarrow> True
      | Inr (Some e, f) \<Rightarrow> False)"

text \<open>What one call adds to \<^verbatim>\<open>f.lines\<close>, when it returns.\<close>

definition linesAdded :: "world \<Rightarrow> nat \<Rightarrow> litInfo \<Rightarrow> sid list \<Rightarrow> filler \<Rightarrow> int option" where
  "linesAdded w n info visited f =
     (case zero w n info visited f of
        Inl e \<Rightarrow> None
      | Inr (r, f') \<Rightarrow> Some (lines f' - lines f))"

text \<open>
  The composite literals of a syntax tree in the order in which \<^verbatim>\<open>ast.Inspect\<close>
  comes to them.
\<close>

fun litSites :: "node \<Rightarrow> litSite list"
  and litSitesList :: "node list \<Rightarrow> litSite list"
where
  "litSites (Node s cs) = (case s of None \<Rightarrow> [] | Some site \<Rightarrow> [site]) @ litSitesList cs"
| "litSitesList [] = []"
| "litSitesList (c # cs) = litSites c @ litSitesList cs"

subsection \<open>Notions used in the proofs\<close>

text \<open>
  Two notions for the proofs. \<open>frame f f'\<close>: from \<open>f\<close> to \<open>f'\<close> the package is
  kept, the position and the line count do not decrease, \<^verbatim>\<open>first\<close> is not set again
  and every existing entry keeps its structure. \<open>sound rec\<close>: a call of \<open>rec\<close> that
  returns respects the frame, leaves the filler as it was when it returns nil, and
  leaves the existing entries as they were unless \<^verbatim>\<open>first\<close> was set.
\<close>

definition frame :: "filler \<Rightarrow> filler \<Rightarrow> bool" where
  "frame f f' =
     (pkg f' = pkg f \<and> pos f \<le> pos f' \<and> lines f \<le> lines f' \<and> (first f \<or> \<not> first f')
      \<and> (\<forall>k. map_option stripPos (existing f' k) = map_option stripPos (existing f k)))"

definition sound :: "zcall \<Rightarrow> bool" where
  "sound rec = (\<forall>info vis f r f'. rec info vis f = Inr (r, f') \<longrightarrow>
      frame f f' \<and> (r = None \<longrightarrow> f' = f) \<and> (first f \<or> existing f' = existing f))"

text \<open>
  \<open>nilStable rec\<close>: whether a call of \<open>rec\<close> returns nil depends on the type and the
  package only, not on the positions, the lines, the existing entries or the types visited.
\<close>

definition nilStable :: "zcall \<Rightarrow> bool" where
  "nilStable rec = (\<forall>info vis f f' vis' g. rec info vis f = Inr (None, f') \<longrightarrow> pkg g = pkg f \<longrightarrow>
      rec info vis' g = Inr (None, g))"

text \<open>
  What the loop over the fields does with one field. \<open>emitsEntry\<close>: the field gets an
  element, for \<^verbatim>\<open>first\<close> as it was at the start of the struct case, \<open>imp\<close> the
  result of \<^verbatim>\<open>isImported\<close> and \<open>ex\<close> the existing entries. \<open>entryOf\<close>: the
  element of the field, with its tag, is the existing entry up to positions, or a new entry.
\<close>

definition emitsEntry :: "world \<Rightarrow> nat \<Rightarrow> pkg \<Rightarrow> bool \<Rightarrow> bool \<Rightarrow> (string \<rightharpoonup> expr) \<Rightarrow> field \<Rightarrow> bool" where
  "emitsEntry w n p first' imp ex fld =
     (if first' \<and> ex (fname fld) \<noteq> None then True
      else (ex (fname fld) = None \<and> \<not> imp \<or> exported fld)
           \<and> \<not> nilDefault w n p (valueInfo (ftype fld)))"

definition entryOf :: "bool \<Rightarrow> (string \<rightharpoonup> expr) \<Rightarrow> field \<Rightarrow> elt \<Rightarrow> bool" where
  "entryOf first' ex fld te =
     (if first' \<and> ex (fname fld) \<noteq> None
      then fst te = Some (fname fld) \<and> map_option stripPos (ex (fname fld)) = Some (stripPos (snd te))
      else fst te = None \<and> newEntry (fname fld) (snd te))"

text \<open>
  Two more notions for the proofs. \<open>within lo hi ms\<close>: the positions \<open>ms\<close> do not
  decrease and lie between \<open>lo\<close> and \<open>hi\<close>. \<open>ordered rec\<close>: a call of \<open>rec\<close> that
  starts with no existing entries returns an expression whose set markers lie within the
  position counter at the call and at the return.
\<close>

definition within :: "pos \<Rightarrow> pos \<Rightarrow> pos list \<Rightarrow> bool" where
  "within lo hi ms = (sorted ms \<and> (\<forall>p \<in> set ms. lo \<le> p \<and> p \<le> hi))"


text \<open>
  \<open>extends rec rec'\<close>: what \<open>rec\<close> returns, \<open>rec'\<close> returns too.
\<close>

definition extends :: "zcall \<Rightarrow> zcall \<Rightarrow> bool" where
  "extends rec rec' = (\<forall>info vis f r. rec info vis f = Inr r \<longrightarrow> rec' info vis f = Inr r)"

subsection \<open>Example programs\<close>

text \<open>
  The declared types of the examples, the literal being in package 0:
  \<^item> 1: \<^verbatim>\<open>type Point struct { X, Y int }\<close>
  \<^item> 2: \<^verbatim>\<open>type Chain struct { Next *Chain }\<close>
  \<^item> 3: \<^verbatim>\<open>type M map[string]M\<close>
  \<^item> 4: \<^verbatim>\<open>type inner struct { name string }\<close>
  \<^item> 5: \<^verbatim>\<open>type outer struct { name string; in inner }\<close>
  \<^item> 6: \<^verbatim>\<open>type Account struct { ID int64; name string }\<close>, declared in package 1
  \<^item> 7: \<^verbatim>\<open>type Holder struct { F M }\<close>
  \<^item> 8: \<^verbatim>\<open>type Config struct { Hosts map[string]int; Keys map[secret]int; Port int }\<close>
  \<^item> 9: \<^verbatim>\<open>type secret string\<close>, declared in package 1 and not exported
  \<^item> 10: \<^verbatim>\<open>type Broken struct { A [2]undefined }\<close>, where no type
    \<^verbatim>\<open>undefined\<close> is declared: the checker gives the element the invalid type, and
    the loader is set up to go on after such errors (\<^verbatim>\<open>allowErrors\<close>)
\<close>

definition Point :: ty where
  "Point = Struct 1 [Field ''X'' True (Basic Int'), Field ''Y'' True (Basic Int')]"

definition Chain :: ty where
  "Chain = Struct 2 [Field ''Next'' True (Pointer (Named 2))]"

definition M :: ty where
  "M = Map (Basic String) (Named 3)"

definition inner :: ty where
  "inner = Struct 4 [Field ''name'' False (Basic String)]"

definition outer :: ty where
  "outer = Struct 5 [Field ''name'' False (Basic String), Field ''in'' False (Named 4)]"

definition Account :: ty where
  "Account = Struct 6 [Field ''ID'' True (Basic Int64), Field ''name'' False (Basic String)]"

definition Holder :: ty where
  "Holder = Struct 7 [Field ''F'' True (Named 3)]"

definition Config :: ty where
  "Config = Struct 8 [Field ''Hosts'' True (Map (Basic String) (Basic Int')),
                      Field ''Keys'' True (Map (Named 9) (Basic Int')),
                      Field ''Port'' True (Basic Int')]"

definition Broken :: ty where
  "Broken = Struct 10 [Field ''A'' True (Array (Basic Invalid) 2)]"

definition exampleNamed :: "tname \<Rightarrow> named_decl" where
  "exampleNamed n =
     (if n = 1 then \<lparr>obj_pkg = Some 0, nunderlying = Point\<rparr>
      else if n = 2 then \<lparr>obj_pkg = Some 0, nunderlying = Chain\<rparr>
      else if n = 3 then \<lparr>obj_pkg = Some 0, nunderlying = M\<rparr>
      else if n = 4 then \<lparr>obj_pkg = Some 0, nunderlying = inner\<rparr>
      else if n = 5 then \<lparr>obj_pkg = Some 0, nunderlying = outer\<rparr>
      else if n = 6 then \<lparr>obj_pkg = Some 1, nunderlying = Account\<rparr>
      else if n = 7 then \<lparr>obj_pkg = Some 0, nunderlying = Holder\<rparr>
      else if n = 8 then \<lparr>obj_pkg = Some 0, nunderlying = Config\<rparr>
      else if n = 10 then \<lparr>obj_pkg = Some 0, nunderlying = Broken\<rparr>
      else \<lparr>obj_pkg = Some 1, nunderlying = Basic String\<rparr>)"

text \<open>
  Modelled from the spec: \<^verbatim>\<open>typeString\<close> is defined in a file of the package that
  is not among the sources. The spec says that a type is rendered by its declared name,
  and that a type cannot be named when it is an unexported type of another package. The
  examples take this instance of the parameter: the basic types and the declared types
  have their names, but for the unexported type 9 of package 1; the examples call it for
  no other type.
\<close>

fun exampleTypeString :: "pkg \<Rightarrow> ty \<Rightarrow> string option" where
  "exampleTypeString p (Basic String) = Some ''string''"
| "exampleTypeString p (Basic Int') = Some ''int''"
| "exampleTypeString p (Basic Invalid) = Some ''invalid type''"
| "exampleTypeString p (Named n) =
     (if n = 1 then Some ''Point'' else if n = 2 then Some ''Chain''
      else if n = 3 then Some ''M'' else if n = 4 then Some ''inner''
      else if n = 5 then Some ''outer'' else if n = 6 then Some ''bank.Account''
      else if n = 7 then Some ''Holder'' else if n = 8 then Some ''Config''
      else if n = 10 then Some ''Broken'' else None)"
| "exampleTypeString p t = None"

definition exampleWorld :: world where
  "exampleWorld = \<lparr>named = exampleNamed, typeString = exampleTypeString, colonOperand = Lexical\<rparr>"

text \<open>The \<^verbatim>\<open>litInfo\<close> of a literal of the declared struct type \<open>n\<close>.\<close>

definition litOf :: "tname \<Rightarrow> litInfo" where
  "litOf n = \<lparr>ltyp = nunderlying (exampleNamed n), name = Some n, hideType = False, isPointer = False\<rparr>"

text \<open>A printer for the examples: it renders every expression as \<^verbatim>\<open>{}\<close>.\<close>

definition examplePrinter :: printer where
  "examplePrinter e lns = (case e of None \<Rightarrow> None | Some x \<Rightarrow> Some ''{}'')"

text \<open>
  The literal \<^verbatim>\<open>[]Point{{}, {}, {}}\<close> on line 3 of a file: the literal of the slice
  and its three elements.
\<close>

definition pointSite :: "int \<Rightarrow> litSite" where
  "pointSite off = \<lparr>site_Elts = [], site_type = Some (Named 1), startLine = 3, endLine = 3,
                     startOff = off, endOff = off + 2\<rparr>"

definition sliceSite :: litSite where
  "sliceSite = \<lparr>site_Elts = [], site_type = Some (Slice (Named 1)), startLine = 3, endLine = 3,
                 startOff = 20, endOff = 40\<rparr>"

definition exampleFile :: node where
  "exampleFile =
     Node None [Node (Some sliceSite)
                  [Node (Some (pointSite 28)) [], Node (Some (pointSite 32)) [],
                   Node (Some (pointSite 36)) []]]"

section \<open>Properties\<close>

subsection \<open>What every call keeps\<close>

lemma frame_refl [simp]: "frame f f"
  by (simp add: frame_def)

lemma frame_trans: "frame f g \<Longrightarrow> frame g h \<Longrightarrow> frame f h"
  by (auto simp: frame_def)

lemma frame_pos [simp]: "0 \<le> d \<Longrightarrow> frame f (f\<lparr>pos := pos f + d\<rparr>)"
  by (simp add: frame_def)

lemma frame_lines [simp]: "0 \<le> d \<Longrightarrow> frame f (f\<lparr>lines := lines f + d\<rparr>)"
  by (simp add: frame_def)

lemma frame_first [simp]: "frame f (f\<lparr>first := False\<rparr>)"
  by (simp add: frame_def)

lemma fixExprPos_same [simp]:
  "pkg (snd (fixExprPos e f)) = pkg f \<and> existing (snd (fixExprPos e f)) = existing f
   \<and> first (snd (fixExprPos e f)) = first f"
  "pkg (snd (fixExprPos_nil t f)) = pkg f \<and> existing (snd (fixExprPos_nil t f)) = existing f
   \<and> first (snd (fixExprPos_nil t f)) = first f"
  "pkg (snd (fixArgs as f)) = pkg f \<and> existing (snd (fixArgs as f)) = existing f
   \<and> first (snd (fixArgs as f)) = first f"
  "pkg (snd (fixElts es f)) = pkg f \<and> existing (snd (fixElts es f)) = existing f
   \<and> first (snd (fixElts es f)) = first f"
  by (induction e f and t f and as f and es f rule: fixExprPos_fixExprPos_nil_fixArgs_fixElts.induct)
     (auto split: prod.splits simp: Let_def)

lemma fixExprPos_pos:
  "pos f \<le> pos (snd (fixExprPos e f))"
  "pos f \<le> pos (snd (fixExprPos_nil t f))"
  "pos f \<le> pos (snd (fixArgs as f))"
  "pos f \<le> pos (snd (fixElts es f))"
proof (induction e f and t f and as f and es f rule: fixExprPos_fixExprPos_nil_fixArgs_fixElts.induct)
  case (12 x lb lo hi mx rb f)
  obtain x' f1 where a: "fixExprPos x f = (x', f1)" by force
  obtain lo' f2 where b: "fixExprPos_nil lo f1 = (lo', f2)" by force
  obtain hi' f3 where c: "fixExprPos_nil hi f2 = (hi', f3)" by force
  obtain mx' f4 where d: "fixExprPos_nil mx f3 = (mx', f4)" by force
  have "pos f \<le> pos f1" using 12(1) a by simp
  moreover have "pos f1 \<le> pos f2" using 12(2) [of x' f1] a b by simp
  moreover have "pos f2 \<le> pos f3" using 12(3) [of x' f1 lo' f2] a b c by simp
  moreover have "pos f3 \<le> pos f4" using 12(4) [of x' f1 lo' f2 hi' f3] a b c d by simp
  ultimately show ?case using a b c d by simp
qed (auto split: prod.splits simp: Let_def)

lemma fixExprPos_stripPos:
  "stripPos (fst (fixExprPos e f)) = stripPos e"
  "map_option stripPos (fst (fixExprPos_nil t f)) = map_option stripPos t"
  "map stripPos (fst (fixArgs as f)) = map stripPos as"
  "map stripPos (fst (fixElts es f)) = map stripPos es"
  by (induction e f and t f and as f and es f rule: fixExprPos_fixExprPos_nil_fixArgs_fixElts.induct)
     (auto split: prod.splits simp: Let_def)

lemma fixExprPos_lines:
  "lines f \<le> lines (snd (fixExprPos e f))"
  "lines f \<le> lines (snd (fixExprPos_nil t f))"
  "lines f \<le> lines (snd (fixArgs as f))"
  "lines f \<le> lines (snd (fixElts es f))"
proof (induction e f and t f and as f and es f rule: fixExprPos_fixExprPos_nil_fixArgs_fixElts.induct)
  case (12 x lb lo hi mx rb f)
  obtain x' f1 where a: "fixExprPos x f = (x', f1)" by force
  obtain lo' f2 where b: "fixExprPos_nil lo f1 = (lo', f2)" by force
  obtain hi' f3 where c: "fixExprPos_nil hi f2 = (hi', f3)" by force
  obtain mx' f4 where d: "fixExprPos_nil mx f3 = (mx', f4)" by force
  have "lines f \<le> lines f1" using 12(1) a by simp
  moreover have "lines f1 \<le> lines f2" using 12(2) [of x' f1] a b by simp
  moreover have "lines f2 \<le> lines f3" using 12(3) [of x' f1 lo' f2] a b c by simp
  moreover have "lines f3 \<le> lines f4" using 12(4) [of x' f1 lo' f2 hi' f3] a b c d by simp
  ultimately show ?case using a b c d by simp
qed (auto split: prod.splits simp: Let_def)

lemma fixExprPos_frame: "fixExprPos e f = (e', f') \<Longrightarrow> frame f f'"
  using fixExprPos_same(1) [of e f] fixExprPos_pos(1) [of f e] fixExprPos_lines(1) [of f e]
  by (simp add: frame_def)

lemma soundD:
  assumes "sound rec" and "rec info vis f = Inr (r, f')"
  shows "frame f f'" and "r = None \<Longrightarrow> f' = f" and "\<not> first f \<Longrightarrow> existing f' = existing f"
  using assms unfolding sound_def by blast+

lemma zeroBasic_same: "zeroBasic k f = Inr (r, f') \<Longrightarrow> f' = f"
  by (auto simp: zeroBasic_def split: if_splits)

lemma nilIdent_same: "nilIdent f = Inr (r, f') \<Longrightarrow> f' = f \<and> r \<noteq> None"
  by (auto simp: nilIdent_def)

lemma zeroMap_sound:
  assumes "sound rec" and "zeroMap w rec info vis k v kn vn f = Inr (r, f')"
  shows "frame f f' \<and> r \<noteq> None \<and> (first f \<or> existing f' = existing f)"
proof -
  let ?f1 = "f\<lparr>pos := pos f + 1\<rparr>"
  from assms(2) obtain key f2 where k: "rec \<lparr>ltyp = k, name = name info, hideType = True, isPointer = False\<rparr> vis ?f1 = Inr (key, f2)"
    by (auto simp: zeroMap_def Let_def split: sum.splits)
  from assms(2) k obtain val f3 where v: "rec \<lparr>ltyp = v, name = name info, hideType = True, isPointer = False\<rparr> vis f2 = Inr (val, f3)"
    by (auto simp: zeroMap_def Let_def split: sum.splits)
  from assms(2) k v have f': "f' = f3\<lparr>pos := pos f3 + 1, lines := lines f3 + 2\<rparr>" and r: "r \<noteq> None"
    by (auto simp: zeroMap_def Let_def)
  have "frame f ?f1" by simp
  moreover have "frame ?f1 f2" using soundD(1) [OF assms(1) k] .
  moreover have "frame f2 f3" using soundD(1) [OF assms(1) v] .
  moreover have "frame f3 f'" unfolding f' by (simp add: frame_def)
  ultimately have "frame f f'" by (blast intro: frame_trans)
  moreover have "first f \<or> existing f' = existing f"
  proof (cases "first f")
    case False
    then have "\<not> first ?f1" by simp
    from soundD(3) [OF assms(1) k this] have e2: "existing f2 = existing f" by simp
    from \<open>frame ?f1 f2\<close> False have "\<not> first f2" by (simp add: frame_def)
    from soundD(3) [OF assms(1) v this] e2 show ?thesis by (simp add: f')
  qed simp
  ultimately show ?thesis using r by simp
qed

lemma arrayElts_sound:
  assumes "sound rec"
  shows "arrayElts rec ei vis k elts f = Inr (elts', f') \<Longrightarrow>
         frame f f' \<and> (first f \<or> existing f' = existing f)"
proof (induction k arbitrary: elts f)
  case 0
  then show ?case by simp
next
  case (Suc k)
  let ?f1 = "f\<lparr>pos := pos f + 1\<rparr>"
  from Suc.prems obtain v g where g: "rec ei vis ?f1 = Inr (v, g)"
    by (auto split: sum.splits)
  from Suc.prems g obtain elts1 where rest: "arrayElts rec ei vis k elts1 g = Inr (elts', f')"
    by (cases v) auto
  have "frame f ?f1" by simp
  with soundD(1) [OF assms g] have fg: "frame f g" by (blast intro: frame_trans)
  from Suc.IH [OF rest] have gf: "frame g f'" and ge: "first g \<or> existing f' = existing g" by simp_all
  have "first f \<or> existing f' = existing f"
  proof (cases "first f")
    case False
    then have "\<not> first ?f1" by simp
    from soundD(3) [OF assms g this] have "existing g = existing f" by simp
    moreover from fg False have "\<not> first g" by (simp add: frame_def)
    ultimately show ?thesis using ge by simp
  qed simp
  then show ?case using fg gf by (blast intro: frame_trans)
qed

lemma zeroArray_sound:
  assumes "sound rec" and "zeroArray w rec info vis elem len f = Inr (r, f')"
  shows "frame f f' \<and> (r = None \<longrightarrow> f' = f) \<and> (first f \<or> existing f' = existing f)"
proof (cases r)
  case None
  with assms(2) show ?thesis
    by (auto simp: zeroArray_def Let_def split: if_splits option.splits sum.splits)
next
  case (Some lit)
  with assms(2) obtain elts f1 where
    loop: "arrayElts rec \<lparr>ltyp = Underlying w elem, name = asNamed elem, hideType = True, isPointer = False\<rparr> vis (nat len) [] f = Inr (elts, f1)"
    and f': "f' = f1\<lparr>lines := lines f1 + int (length elts) + 2, pos := pos f1 + 1\<rparr>"
    by (auto simp: zeroArray_def Let_def split: if_splits option.splits sum.splits)
  from arrayElts_sound [OF assms(1) loop] have "frame f f1" and e: "first f \<or> existing f1 = existing f"
    by simp_all
  moreover have "frame f1 f'" unfolding f' by (simp add: frame_def)
  ultimately show ?thesis using Some by (auto intro: frame_trans simp: f')
qed

lemma structField_sound:
  assumes "sound rec" and "structField rec first' imp vis fld elts lns f = Inr (elts', lns', f')"
  shows "frame f f' \<and> (first' \<or> first f \<or> existing f' = existing f)"
proof (cases "first' \<and> existing f (fname fld) \<noteq> None")
  case True
  then obtain kv where kv: "existing f (fname fld) = Some kv" by auto
  obtain kv' f1 where fx: "fixExprPos kv (f\<lparr>pos := pos f + 1\<rparr>) = (kv', f1)" by force
  from assms(2) True kv fx have f': "f' = f1\<lparr>existing := (existing f1)(fname fld \<mapsto> kv')\<rparr>"
    by (simp add: structField_def)
  have s: "stripPos kv' = stripPos kv" using fixExprPos_stripPos(1) [of kv "f\<lparr>pos := pos f + 1\<rparr>"] fx by simp
  have "frame (f\<lparr>pos := pos f + 1\<rparr>) f1" using fixExprPos_frame [OF fx] .
  then have "frame f f1" by (simp add: frame_def)
  moreover have "existing f1 = existing f" using fixExprPos_same(1) [of kv "f\<lparr>pos := pos f + 1\<rparr>"] fx by simp
  ultimately have "frame f f'" unfolding f' using kv s by (simp add: frame_def)
  then show ?thesis using True by simp
next
  case False
  note nf = this
  show ?thesis
  proof (cases "existing f (fname fld) = None \<and> \<not> imp \<or> exported fld")
    case False
    with nf assms(2) show ?thesis by (auto simp: structField_def)
  next
    case True
    let ?f1 = "f\<lparr>pos := pos f + 1\<rparr>"
    from True nf assms(2) obtain v f2 where
      g: "rec \<lparr>ltyp = ftype fld, name = None, hideType = False, isPointer = False\<rparr> vis ?f1 = Inr (v, f2)"
      by (auto simp: structField_def Let_def split: sum.splits)
    have ff2: "frame ?f1 f2" using soundD(1) [OF assms(1) g] .
    have ex: "\<not> first f \<Longrightarrow> existing f2 = existing f" using soundD(3) [OF assms(1) g] by simp
    show ?thesis
    proof (cases v)
      case None
      with soundD(2) [OF assms(1) g] have "f2 = ?f1" by simp
      with True nf assms(2) g None have "f' = f" by (auto simp: structField_def Let_def)
      then show ?thesis by simp
    next
      case (Some e)
      with True nf assms(2) g have "f' = f2" by (auto simp: structField_def Let_def)
      with ff2 ex show ?thesis by (auto simp: frame_def)
    qed
  qed
qed

lemma structFields_sound:
  assumes "sound rec"
  shows "structFields rec first' imp vis flds (elts, lns, f) = Inr (elts', lns', f') \<Longrightarrow>
         frame f f' \<and> (first' \<or> first f \<or> existing f' = existing f)"
proof (induction flds arbitrary: elts lns f)
  case Nil
  then show ?case by simp
next
  case (Cons fld flds)
  from Cons.prems obtain e1 l1 f1 where
    st: "structField rec first' imp vis fld elts lns f = Inr (e1, l1, f1)"
    and rest: "structFields rec first' imp vis flds (e1, l1, f1) = Inr (elts', lns', f')"
    by (auto split: sum.splits)
  from structField_sound [OF assms st] Cons.IH [OF rest]
  show ?case by (auto intro: frame_trans simp: frame_def)
qed

lemma zeroStruct_sound:
  assumes "sound rec" and "zeroStruct w rec info vis s flds f = Inr (r, f')"
  shows "frame f f' \<and> (r = None \<longrightarrow> f' = f) \<and> (first f \<or> existing f' = existing f)"
proof (cases "structTypeName w info (Struct s flds) f")
  case None
  with assms(2) show ?thesis by (simp add: zeroStruct_def)
next
  case (Some t)
  show ?thesis
  proof (cases "s \<in> set vis")
    case True
    with Some assms(2) show ?thesis by (auto simp: zeroStruct_def)
  next
    case False
    with Some assms(2) obtain elts lns f1 where
      loop: "structFields rec (first f) (isImported w (pkg f) (name info)) (vis @ [s]) flds
               ([], 0, f\<lparr>first := False\<rparr>) = Inr (elts, lns, f1)"
      and f': "f' = (if lns > 0 then f1\<lparr>lines := lines f1 + (lns + 2), pos := pos f1 + 1\<rparr> else f1)"
      and r: "r \<noteq> None"
      by (auto simp: zeroStruct_def Let_def split: sum.splits)
    have l: "0 < lns \<Longrightarrow> frame f1 (f1\<lparr>lines := lines f1 + (lns + 2), pos := pos f1 + 1\<rparr>)"
      by (simp add: frame_def)
    from structFields_sound [OF assms(1) loop] l
    show ?thesis using r unfolding f' by (auto simp: frame_def)
  qed
qed

lemma zeroBody_sound:
  assumes "sound rec"
  shows "sound (zeroBody w rec)"
  unfolding sound_def
proof (intro allI impI)
  fix info vis f r f'
  assume a: "zeroBody w rec info vis f = Inr (r, f')"
  show "frame f f' \<and> (r = None \<longrightarrow> f' = f) \<and> (first f \<or> existing f' = existing f)"
  proof (cases "ltyp info")
    case (Basic k)
    with a have "zeroBasic k f = Inr (r, f')" by (simp add: zeroBody_def)
    from zeroBasic_same [OF this] show ?thesis by simp
  next
    case (Map k v)
    show ?thesis
    proof (cases "typeString w (pkg f) k")
      case None
      with a Map show ?thesis by (simp add: zeroBody_def)
    next
      case kn: (Some kn)
      show ?thesis
      proof (cases "typeString w (pkg f) v")
        case None
        with a Map kn show ?thesis by (simp add: zeroBody_def)
      next
        case (Some vn)
        with a Map kn have "zeroMap w rec info vis k v kn vn f = Inr (r, f')"
          by (simp add: zeroBody_def)
        from zeroMap_sound [OF assms this] show ?thesis by auto
      qed
    qed
  next
    case (Array elem len)
    with a zeroArray_sound [OF assms] show ?thesis by (simp add: zeroBody_def)
  next
    case (Named n)
    with a assms show ?thesis unfolding sound_def zeroBody_def by (simp del: Underlying.simps)
  next
    case (Pointer elem)
    with a assms show ?thesis unfolding sound_def zeroBody_def
      by (auto simp: nilIdent_def split: if_splits)
  next
    case (Struct s flds)
    with a zeroStruct_sound [OF assms] show ?thesis by (simp add: zeroBody_def)
  qed (use a in \<open>auto simp: zeroBody_def nilIdent_def\<close>)
qed

lemma zero_sound: "sound (zero w n)"
  by (induction n) (simp_all add: zeroBody_sound, simp add: sound_def)

subsection \<open>The entries of the target literal\<close>

lemma existingEntries_panic:
  "e \<in> set es \<Longrightarrow> \<not> keyedByIdent e \<Longrightarrow> existingEntries es m = Inl PanicTypeAssertion"
proof (induction es arbitrary: m)
  case Nil
  then show ?case by simp
next
  case (Cons a es)
  show ?case
  proof (cases "keyedByIdent a")
    case True
    then obtain p nm c v where a: "a = KeyValueExpr (Some (Ident p nm)) c v"
      by (cases a rule: keyedByIdent.cases) simp_all
    from True Cons.prems have "e \<in> set es" by auto
    then show ?thesis using Cons.IH Cons.prems(2) a by simp
  next
    case False
    then show ?thesis by (cases a rule: keyedByIdent.cases) simp_all
  qed
qed

text \<open>
  C10. When the target literal has an element that is not a key/value pair, or a
  key/value pair whose key is not an identifier, \<^verbatim>\<open>zeroValue\<close> panics at a type
  assertion, whatever the type of the literal: it returns neither a literal nor an error.
  The literal \<^verbatim>\<open>Point{1, 2}\<close> is such an input.
\<close>

theorem zeroValue_panics_on_unkeyed_element:
  assumes "e \<in> set lit_Elts" and "\<not> keyedByIdent e"
  shows "zeroValue w n p lit_Elts info = Inl PanicTypeAssertion"
  using existingEntries_panic [OF assms] by (simp add: zeroValue_def)

theorem zeroValue_panics_on_unkeyed_element_witness:
  "BasicLit 20 ''1'' \<in> set [BasicLit 20 ''1'', BasicLit 23 ''2'']
   \<and> \<not> keyedByIdent (BasicLit 20 ''1'')
   \<and> zeroValue exampleWorld 5 (Some 0) [BasicLit 20 ''1'', BasicLit 23 ''2''] (litOf 1)
       = Inl PanicTypeAssertion"
  using zeroValue_panics_on_unkeyed_element
    [of "BasicLit 20 ''1''" "[BasicLit 20 ''1'', BasicLit 23 ''2'']" exampleWorld 5 "Some 0" "litOf 1"]
  by simp

subsection \<open>When a call returns nil\<close>

lemma nilStableD:
  "nilStable rec \<Longrightarrow> rec info vis f = Inr (None, f') \<Longrightarrow> pkg (g::filler) = pkg f \<Longrightarrow>
   rec info vis' g = Inr (None, g)"
  unfolding nilStable_def by blast

lemma zeroBasic_nil:
  "zeroBasic k f = Inr (None, f') \<Longrightarrow> zeroBasic k g = Inr (None, g)"
  by (auto simp: zeroBasic_def split: if_splits)

lemma zeroMap_not_nil: "zeroMap w rec info vis k v kn vn f \<noteq> Inr (None, f')"
  by (auto simp: zeroMap_def Let_def split: sum.splits)

lemma zeroArray_nil:
  "zeroArray w rec info vis elem len f = Inr (None, f') \<longleftrightarrow>
   (\<not> hideType info \<and> typeString w (pkg f) elem = None \<and> f' = f)"
  by (auto simp: zeroArray_def Let_def split: option.splits sum.splits)

lemma structTypeName_pkg:
  "pkg (g::filler) = pkg (f::filler) \<Longrightarrow> structTypeName w info t g = structTypeName w info t f"
  by (simp add: structTypeName_def split: option.splits)

lemma zeroStruct_nil:
  "zeroStruct w rec info vis s flds f = Inr (None, f') \<longleftrightarrow>
   (structTypeName w info (Struct s flds) f = None \<and> f' = f)"
  by (auto simp: zeroStruct_def Let_def split: option.splits sum.splits)

lemma zeroBody_nilStable:
  assumes "nilStable rec"
  shows "nilStable (zeroBody w rec)"
  unfolding nilStable_def
proof (intro allI impI)
  fix info vis f f' vis' and g :: filler
  assume a: "zeroBody w rec info vis f = Inr (None, f')" and p: "pkg g = pkg f"
  show "zeroBody w rec info vis' g = Inr (None, g)"
  proof (cases "ltyp info")
    case (Basic k)
    with a have "zeroBasic k f = Inr (None, f')" by (simp add: zeroBody_def)
    from zeroBasic_nil [OF this] Basic show ?thesis by (simp add: zeroBody_def)
  next
    case (Map k v)
    show ?thesis
    proof (cases "typeString w (pkg f) k")
      case None
      with Map p show ?thesis by (simp add: zeroBody_def)
    next
      case kn: (Some kn)
      show ?thesis
      proof (cases "typeString w (pkg f) v")
        case None
        with Map p kn show ?thesis by (simp add: zeroBody_def)
      next
        case (Some vn)
        with a Map kn have "zeroMap w rec info vis k v kn vn f = Inr (None, f')"
          by (simp add: zeroBody_def)
        with zeroMap_not_nil [of w rec info vis k v kn vn f f'] show ?thesis by simp
      qed
    qed
  next
    case (Array elem len)
    with a p show ?thesis by (simp add: zeroBody_def zeroArray_nil)
  next
    case (Named n)
    let ?i = "info\<lparr>name := (if isStruct (Underlying w (Named n)) then Some n else name info),
                      ltyp := Underlying w (Named n)\<rparr>"
    from a Named have "rec ?i vis f = Inr (None, f')" by (simp add: zeroBody_def del: Underlying.simps)
    from nilStableD [OF assms this p] have "rec ?i vis' g = Inr (None, g)" .
    with Named show ?thesis by (simp add: zeroBody_def del: Underlying.simps)
  next
    case (Pointer elem)
    let ?i = "info\<lparr>ltyp := elem, isPointer := True\<rparr>"
    from a Pointer have s: "isStruct (Underlying w elem)" and r: "rec ?i vis f = Inr (None, f')"
      by (auto simp: zeroBody_def nilIdent_def split: if_splits)
    from nilStableD [OF assms r p] have "rec ?i vis' g = Inr (None, g)" .
    with Pointer s show ?thesis by (simp add: zeroBody_def)
  next
    case (Struct s flds)
    with a show ?thesis by (simp add: zeroBody_def zeroStruct_nil structTypeName_pkg [OF p])
  qed (use a in \<open>auto simp: zeroBody_def nilIdent_def\<close>)
qed

lemma zero_nilStable: "nilStable (zero w n)"
  by (induction n) (simp_all add: zeroBody_nilStable, simp add: nilStable_def)

lemma zero_nil_iff:
  assumes "zero w n info vis f = Inr (r, f')"
  shows "(r = None) = nilDefault w n (pkg f) info"
proof
  assume "r = None"
  with assms have a: "zero w n info vis f = Inr (None, f')" by simp
  have "pkg (newFiller (pkg f)) = pkg f" by (simp add: newFiller_def)
  from nilStableD [OF zero_nilStable a this]
  show "nilDefault w n (pkg f) info" by (simp add: nilDefault_def)
next
  assume "nilDefault w n (pkg f) info"
  then obtain g where a: "zero w n info [] (newFiller (pkg f)) = Inr (None, g)"
    by (auto simp: nilDefault_def split: sum.splits option.splits)
  have "pkg f = pkg (newFiller (pkg f))" by (simp add: newFiller_def)
  from nilStableD [OF zero_nilStable a this] have "zero w n info vis f = Inr (None, f)" .
  with assms show "r = None" by simp
qed

subsection \<open>The entries of a struct literal\<close>

lemma entryOf_rewriteEntry:
  assumes "list_all2 (entryOf first' ex) kept elts"
    and "map_option stripPos (ex key) = Some (stripPos kv')"
  shows "list_all2 (entryOf first' ex) kept (rewriteEntry key kv' elts)"
proof -
  have fe: "(\<lambda>(tag, e). if tag = Some key then (tag, kv') else (tag, e))
          = (\<lambda>te. if fst te = Some key then (fst te, kv') else te)"
    by (auto simp: fun_eq_iff)
  have step: "entryOf first' ex fld (if fst te = Some key then (fst te, kv') else te)"
    if "entryOf first' ex fld te" for fld te
    using that assms(2) by (auto simp: entryOf_def split: if_splits)
  from assms(1)
  have "list_all2 (\<lambda>fld te. entryOf first' ex fld (if fst te = Some key then (fst te, kv') else te)) kept elts"
    by (rule list_all2_mono) (rule step)
  then show ?thesis
    by (simp add: rewriteEntry_def fe list_all2_map2)
qed

lemma structField_entries:
  assumes st: "structField (zero w n) first' imp vis fld elts lns f = Inr (elts', lns', f')"
    and pre: "list_all2 (entryOf first' ex) kept elts"
    and ex: "\<forall>k. map_option stripPos (existing f k) = map_option stripPos (ex k)"
  shows "list_all2 (entryOf first' ex)
           (kept @ (if emitsEntry w n (pkg f) first' imp ex fld then [fld] else [])) elts'
         \<and> lns' = lns + (if emitsEntry w n (pkg f) first' imp ex fld then 1 else 0)"
proof (cases "first' \<and> existing f (fname fld) \<noteq> None")
  case True
  then obtain kv where kv: "existing f (fname fld) = Some kv" by auto
  obtain kv' f1 where fx: "fixExprPos kv (f\<lparr>pos := pos f + 1\<rparr>) = (kv', f1)" by force
  from st True kv fx have r: "elts' = rewriteEntry (fname fld) kv' elts @ [(Some (fname fld), kv')]"
      "lns' = lns + 1"
    by (simp_all add: structField_def)
  have s: "stripPos kv' = stripPos kv"
    using fixExprPos_stripPos(1) [of kv "f\<lparr>pos := pos f + 1\<rparr>"] fx by simp
  from ex kv have e: "map_option stripPos (ex (fname fld)) = Some (stripPos kv)"
    by (metis option.simps(9))
  then have em: "emitsEntry w n (pkg f) first' imp ex fld" using True by (auto simp: emitsEntry_def)
  have "entryOf first' ex fld (Some (fname fld), kv')" using True e s by (auto simp: entryOf_def)
  moreover have "list_all2 (entryOf first' ex) kept (rewriteEntry (fname fld) kv' elts)"
    using entryOf_rewriteEntry [OF pre] e s by simp
  ultimately show ?thesis using r em by (simp add: list_all2_appendI)
next
  case False
  note nf = this
  have exn: "(ex (fname fld) = None) = (existing f (fname fld) = None)"
    using ex by (metis option.map_disc_iff)
  show ?thesis
  proof (cases "existing f (fname fld) = None \<and> \<not> imp \<or> exported fld")
    case False
    with nf exn have "\<not> emitsEntry w n (pkg f) first' imp ex fld" by (auto simp: emitsEntry_def)
    moreover from False nf st have "elts' = elts" "lns' = lns" by (auto simp: structField_def)
    ultimately show ?thesis using pre by simp
  next
    case True
    let ?f1 = "f\<lparr>pos := pos f + 1\<rparr>"
    from True nf st obtain v f2 where
      g: "zero w n (valueInfo (ftype fld)) vis ?f1 = Inr (v, f2)"
      by (auto simp: structField_def Let_def valueInfo_def split: sum.splits)
    from zero_nil_iff [OF g] have nd: "(v = None) = nilDefault w n (pkg f) (valueInfo (ftype fld))"
      by simp
    show ?thesis
    proof (cases v)
      case None
      with nd nf exn have "\<not> emitsEntry w n (pkg f) first' imp ex fld" by (auto simp: emitsEntry_def)
      moreover from None True nf st g have "elts' = elts" "lns' = lns"
        by (auto simp: structField_def Let_def valueInfo_def)
      ultimately show ?thesis using pre by simp
    next
      case (Some e)
      with nd nf exn True have em: "emitsEntry w n (pkg f) first' imp ex fld"
        by (auto simp: emitsEntry_def)
      from Some True nf st g have r:
        "elts' = elts @ [(None, KeyValueExpr (Some (Ident (pos ?f1) (fname fld))) 0 (Some e))]"
        "lns' = lns + 1"
        by (auto simp: structField_def Let_def valueInfo_def)
      have "entryOf first' ex fld (None, KeyValueExpr (Some (Ident (pos ?f1) (fname fld))) 0 (Some e))"
        using nf exn by (auto simp: entryOf_def)
      then show ?thesis using r em pre by (simp add: list_all2_appendI)
    qed
  qed
qed

lemma structFields_entries:
  "structFields (zero w n) first' imp vis flds (elts, lns, f) = Inr (elts', lns', f') \<Longrightarrow>
   list_all2 (entryOf first' ex) kept elts \<Longrightarrow>
   \<forall>k. map_option stripPos (existing f k) = map_option stripPos (ex k) \<Longrightarrow>
   list_all2 (entryOf first' ex) (kept @ filter (emitsEntry w n (pkg f) first' imp ex) flds) elts'
   \<and> lns' = lns + int (length (filter (emitsEntry w n (pkg f) first' imp ex) flds))"
proof (induction flds arbitrary: elts lns f kept)
  case Nil
  then show ?case by simp
next
  case (Cons fld flds)
  from Cons.prems(1) obtain e1 l1 f1 where
    st: "structField (zero w n) first' imp vis fld elts lns f = Inr (e1, l1, f1)"
    and rest: "structFields (zero w n) first' imp vis flds (e1, l1, f1) = Inr (elts', lns', f')"
    by (auto split: sum.splits)
  let ?one = "if emitsEntry w n (pkg f) first' imp ex fld then [fld] else []"
  from structField_entries [OF st Cons.prems(2) Cons.prems(3)]
  have a: "list_all2 (entryOf first' ex) (kept @ ?one) e1"
    and l: "l1 = lns + (if emitsEntry w n (pkg f) first' imp ex fld then 1 else 0)" by simp_all
  from structField_sound [OF zero_sound st] have fr: "frame f f1" by simp
  then have p: "pkg f1 = pkg f"
    and e: "\<forall>k. map_option stripPos (existing f1 k) = map_option stripPos (ex k)"
    using Cons.prems(3) by (simp_all add: frame_def)
  from Cons.IH [OF rest a e] p l show ?case by auto
qed

lemma zeroStruct_entries:
  assumes "zero w (Suc n) info vis f = Inr (Some lit, f')"
    and "ltyp info = Struct s flds" and "s \<notin> set vis"
  shows "\<exists>elts. isCompositeLit lit \<and> Elts lit = map snd elts \<and>
           list_all2 (entryOf (first f) (existing f))
             (filter (emitsEntry w n (pkg f) (first f) (isImported w (pkg f) (name info)) (existing f)) flds)
             elts"
proof -
  from assms have z: "zeroStruct w (zero w n) info vis s flds f = Inr (Some lit, f')"
    by (simp add: zeroBody_def)
  then obtain t where t: "structTypeName w info (Struct s flds) f = Some t"
    by (auto simp: zeroStruct_def split: option.splits)
  from z t assms(3) obtain elts lns f1 where
    loop: "structFields (zero w n) (first f) (isImported w (pkg f) (name info)) (vis @ [s]) flds
             ([], 0, f\<lparr>first := False\<rparr>) = Inr (elts, lns, f1)"
    and lit: "lit = CompositeLit t (pos f) (map snd elts)
                 (pos (if lns > 0 then f1\<lparr>lines := lines f1 + (lns + 2), pos := pos f1 + 1\<rparr> else f1))"
    by (auto simp: zeroStruct_def Let_def split: sum.splits)
  from structFields_entries [OF loop, of "existing f" "[]"]
  have "list_all2 (entryOf (first f) (existing f))
          (filter (emitsEntry w n (pkg f) (first f) (isImported w (pkg f) (name info)) (existing f)) flds)
          elts" by simp
  with lit show ?thesis by auto
qed

subsection \<open>The fields that get an entry, and the entries that are kept\<close>

lemmas zero_eval =
  zeroBody_def zeroStruct_def structTypeName_def structField_def zeroBasic_def zeroMap_def
  zeroArray_def nilIdent_def isImported_def Let_def zeroValue_def newFiller_def valueInfo_def
  nilDefault_def linesAdded_def rewriteEntry_def eval_nat_numeral

lemmas example_defs =
  litOf_def exampleNamed_def exampleWorld_def Point_def Chain_def M_def inner_def outer_def
  Account_def Holder_def Config_def Broken_def

text \<open>
  C1 (as amended). A struct literal that \<^verbatim>\<open>zero\<close> fills (its type not among the
  types visited on the way down) when no field of the struct has its name among the
  existing entries: the elements of the literal are, in the order of the fields, one new
  key/value entry for every field that is exported or belongs to a type that is not
  imported, and whose value is not the nil expression; no other field has an element.
\<close>

theorem struct_literal_entries:
  assumes "zero w (Suc n) info visited f = Inr (Some lit, f')"
    and "ltyp info = Struct s flds"
    and "s \<notin> set visited"
    and "\<forall>fld \<in> set flds. existing f (fname fld) = None"
  shows "isCompositeLit lit \<and>
         list_all2 (\<lambda>fld e. newEntry (fname fld) e)
           (filter (\<lambda>fld. (\<not> isImported w (pkg f) (name info) \<or> exported fld)
                         \<and> \<not> nilDefault w n (pkg f) (valueInfo (ftype fld))) flds)
           (Elts lit)"
proof -
  from zeroStruct_entries [OF assms(1-3)] obtain elts where
    c: "isCompositeLit lit" and e: "Elts lit = map snd elts"
    and l: "list_all2 (entryOf (first f) (existing f))
             (filter (emitsEntry w n (pkg f) (first f) (isImported w (pkg f) (name info)) (existing f)) flds)
             elts" by blast
  have eq: "filter (emitsEntry w n (pkg f) (first f) (isImported w (pkg f) (name info)) (existing f)) flds
          = filter (\<lambda>fld. (\<not> isImported w (pkg f) (name info) \<or> exported fld)
                         \<and> \<not> nilDefault w n (pkg f) (valueInfo (ftype fld))) flds"
    using assms(4) by (intro filter_cong) (auto simp: emitsEntry_def)
  have "list_all2 (\<lambda>fld te. newEntry (fname fld) (snd te))
          (filter (emitsEntry w n (pkg f) (first f) (isImported w (pkg f) (name info)) (existing f)) flds)
          elts"
    using l
  proof (rule list.rel_mono_strong)
    fix fld te
    assume "fld \<in> set (filter (emitsEntry w n (pkg f) (first f) (isImported w (pkg f) (name info)) (existing f)) flds)"
      and "entryOf (first f) (existing f) fld te"
    with assms(4) show "newEntry (fname fld) (snd te)" by (auto simp: entryOf_def)
  qed
  with c e eq show ?thesis by (simp add: list_all2_map2)
qed

theorem struct_literal_entries_witness:
  "zero exampleWorld (Suc 1) (litOf 6) [] (newFiller (Some 0))
     = Inr (Some (CompositeLit (Some (Ident 0 ''bank.Account'')) 1
                    [KeyValueExpr (Some (Ident 2 ''ID'')) 0 (Some (BasicLit 2 ''0''))] 3),
            \<lparr>pkg = Some 0, pos = 3, lines = 3, existing = Map.empty, first = False\<rparr>)
   \<and> ltyp (litOf 6) = Struct 6 [Field ''ID'' True (Basic Int64), Field ''name'' False (Basic String)]
   \<and> 6 \<notin> set []
   \<and> existing (newFiller (Some 0)) ''ID'' = None
   \<and> existing (newFiller (Some 0)) ''name'' = None
   \<and> list_all2 (\<lambda>fld e. newEntry (fname fld) e) [Field ''ID'' True (Basic Int64)]
         (Elts (CompositeLit (Some (Ident 0 ''bank.Account'')) 1
                  [KeyValueExpr (Some (Ident 2 ''ID'')) 0 (Some (BasicLit 2 ''0''))] 3))"
  using struct_literal_entries
    [of exampleWorld 1 "litOf 6" "[]" "newFiller (Some 0)"
        "CompositeLit (Some (Ident 0 ''bank.Account'')) 1
           [KeyValueExpr (Some (Ident 2 ''ID'')) 0 (Some (BasicLit 2 ''0''))] 3"
        "\<lparr>pkg = Some 0, pos = 3, lines = 3, existing = Map.empty, first = False\<rparr>"
        6 "[Field ''ID'' True (Basic Int64), Field ''name'' False (Basic String)]"]
  by (simp add: zero_eval example_defs)

text \<open>
  C1 fails as stated: for \<^verbatim>\<open>type Chain struct { Next *Chain }\<close> the literal
  \<^verbatim>\<open>Chain{}\<close> is filled to \<^verbatim>\<open>Chain{Next: &Chain{}}\<close>. The inner struct literal has no
  element for \<^verbatim>\<open>Next\<close>, an exported field of a type of the same package.
\<close>

theorem struct_literal_entries_counterexample:
  "zeroValue exampleWorld 4 (Some 0) [] (litOf 2)
     = Inr (Some (CompositeLit (Some (Ident 0 ''Chain'')) 1
                    [KeyValueExpr (Some (Ident 2 ''Next'')) 0
                       (Some (CompositeLit (Some (Ident 0 ''&Chain'')) 2 [] 0))] 3), 3)"
  by (simp add: zero_eval example_defs)




subsection \<open>Types that reach themselves, and the first level\<close>

lemma struct_on_path_has_no_entries:
  assumes "zero w (Suc n) info visited f = Inr (r, f')"
    and "ltyp info = Struct s flds" and "s \<in> set visited"
  shows "f' = f \<and> (case r of None \<Rightarrow> True | Some lit \<Rightarrow> isCompositeLit lit \<and> Elts lit = [])"
  using assms by (auto simp: zeroBody_def zeroStruct_def split: option.splits)

lemma zero_string:
  "zero w n \<lparr>ltyp = Basic String, name = nm, hideType = h, isPointer = ip\<rparr> vis f = Inl OutOfFuel
   \<or> zero w n \<lparr>ltyp = Basic String, name = nm, hideType = h, isPointer = ip\<rparr> vis f
       = Inr (Some (BasicLit (pos f) [CHR 0x22, CHR 0x22]), f)"
  by (cases n) (simp_all add: zeroBody_def zeroBasic_def)

lemma recursive_map_out_of_fuel:
  assumes u: "nunderlying (named w m) = Map (Basic String) (Named m)"
    and k: "typeString w p (Basic String) = Some kn"
    and v: "typeString w p (Named m) = Some vn"
  shows "pkg f = p \<Longrightarrow> ltyp info = Named m \<or> ltyp info = Map (Basic String) (Named m) \<Longrightarrow>
         zero w n info vis f = Inl OutOfFuel"
proof (induction n arbitrary: info vis f)
  case 0
  then show ?case by simp
next
  case (Suc n)
  from Suc.prems(2) show ?case
  proof
    assume t: "ltyp info = Named m"
    let ?i = "info\<lparr>name := (if isStruct (Underlying w (Named m)) then Some m else name info),
                      ltyp := Underlying w (Named m)\<rparr>"
    have "ltyp ?i = Map (Basic String) (Named m)" using u by simp
    with Suc.IH [OF Suc.prems(1)] have "zero w n ?i vis f = Inl OutOfFuel" by blast
    with t show ?thesis by (simp add: zeroBody_def del: Underlying.simps)
  next
    assume t: "ltyp info = Map (Basic String) (Named m)"
    let ?f1 = "f\<lparr>pos := pos f + 1\<rparr>"
    let ?ki = "\<lparr>ltyp = Basic String, name = name info, hideType = True, isPointer = False\<rparr>"
    let ?vi = "\<lparr>ltyp = Named m, name = name info, hideType = True, isPointer = False\<rparr>"
    have z: "zero w (Suc n) info vis f = zeroMap w (zero w n) info vis (Basic String) (Named m) kn vn f"
      using t k v Suc.prems(1) by (simp add: zeroBody_def)
    from zero_string [of w n "name info" True False vis ?f1] show ?thesis
    proof
      assume "zero w n ?ki vis ?f1 = Inl OutOfFuel"
      then show ?thesis unfolding z by (simp add: zeroMap_def)
    next
      assume a: "zero w n ?ki vis ?f1 = Inr (Some (BasicLit (pos ?f1) [CHR 0x22, CHR 0x22]), ?f1)"
      have "pkg ?f1 = p" using Suc.prems(1) by simp
      from Suc.IH [OF this, of ?vi vis] have "zero w n ?vi vis ?f1 = Inl OutOfFuel" by simp
      with a show ?thesis unfolding z by (simp add: zeroMap_def)
    qed
  qed
qed

text \<open>
  C3. The claim fails on the code. With \<^verbatim>\<open>type M map[string]M\<close> and
  \<^verbatim>\<open>type Holder struct { F M }\<close>, filling the literal \<^verbatim>\<open>Holder{}\<close> does not return,
  however deep the calls of \<^verbatim>\<open>zero\<close> may nest: the map case calls \<^verbatim>\<open>zero\<close> for the
  value type \<^verbatim>\<open>M\<close>, the case of a declared type calls it for the map again, and the
  types visited are only looked at in the struct case.
\<close>

theorem recursive_map_type_never_returns:
  "zeroValue exampleWorld n (Some 0) [] (litOf 7) = Inl OutOfFuel"
proof (cases n)
  case 0
  then show ?thesis by (simp add: zeroValue_def)
next
  case (Suc k)
  have "zero exampleWorld k (valueInfo (Named 3)) vis f = Inl OutOfFuel" if "pkg f = Some 0" for vis f
    using recursive_map_out_of_fuel [of exampleWorld 3 "Some 0" "''string''" "''M''" f "valueInfo (Named 3)" k vis] that
    by (simp add: example_defs valueInfo_def)
  then show ?thesis using Suc
    by (simp add: zeroBody_def zeroStruct_def structTypeName_def structField_def isImported_def
        Let_def zeroValue_def valueInfo_def example_defs)
qed

text \<open>
  C2. The claim fails on the code. With \<^verbatim>\<open>type inner struct { name string }\<close> and
  \<^verbatim>\<open>type outer struct { name string; in inner }\<close>, the literal \<^verbatim>\<open>outer{name: "x"}\<close>
  is filled to \<^verbatim>\<open>outer{name: "x", in: inner{}}\<close>, while \<^verbatim>\<open>outer{}\<close> is filled to
  \<^verbatim>\<open>outer{name: "", in: inner{name: ""}}\<close>: the entry \<^verbatim>\<open>name\<close> of the outermost
  literal decides that the nested literal of \<^verbatim>\<open>inner\<close> gets no entry for its field
  \<^verbatim>\<open>name\<close>.
\<close>

theorem nested_level_reads_existing_entries:
  "zeroValue exampleWorld 4 (Some 0)
      [KeyValueExpr (Some (Ident 31 ''name'')) 35 (Some (BasicLit 37 ''x''))] (litOf 5)
     = Inr (Some (CompositeLit (Some (Ident 0 ''outer'')) 1
                    [KeyValueExpr (Some (Ident 2 ''name'')) 35 (Some (BasicLit 2 ''x'')),
                     KeyValueExpr (Some (Ident 3 ''in'')) 0
                       (Some (CompositeLit (Some (Ident 0 ''inner'')) 3 [] 3))] 4), 4)
   \<and> zeroValue exampleWorld 4 (Some 0) [] (litOf 5)
     = Inr (Some (CompositeLit (Some (Ident 0 ''outer'')) 1
                    [KeyValueExpr (Some (Ident 2 ''name'')) 0 (Some (BasicLit 2 [CHR 0x22, CHR 0x22])),
                     KeyValueExpr (Some (Ident 3 ''in'')) 0
                       (Some (CompositeLit (Some (Ident 0 ''inner'')) 3
                                [KeyValueExpr (Some (Ident 4 ''name'')) 0
                                   (Some (BasicLit 4 [CHR 0x22, CHR 0x22]))] 5))] 6), 7)"
  by (simp add: zero_eval example_defs)

subsection \<open>Map-typed fields\<close>

lemma declared_map_type_unfolds:
  assumes "nunderlying (named w m) = Map k v"
  shows "zero w (Suc n) (valueInfo (Named m)) visited f = zero w n (valueInfo (Map k v)) visited f"
  using assms by (simp add: zeroBody_def valueInfo_def)

lemma zeroMap_entry:
  assumes "zeroMap w rec info visited k v kn vn f = Inr (r, f')"
  shows "\<exists>key colon val f2 f3.
           r = Some (CompositeLit (Some (MapType (pos f) (Ident 0 kn) (Ident 0 vn))) (pos f)
                       [KeyValueExpr key colon val] (pos f3 + 1))
           \<and> rec \<lparr>ltyp = k, name = name info, hideType = True, isPointer = False\<rparr> visited
                 (f\<lparr>pos := pos f + 1\<rparr>) = Inr (key, f2)
           \<and> rec \<lparr>ltyp = v, name = name info, hideType = True, isPointer = False\<rparr> visited f2
                 = Inr (val, f3)
           \<and> f' = f3\<lparr>pos := pos f3 + 1, lines := lines f3 + 2\<rparr>"
proof -
  let ?f1 = "f\<lparr>pos := pos f + 1\<rparr>"
  from assms obtain key f2 where k: "rec \<lparr>ltyp = k, name = name info, hideType = True, isPointer = False\<rparr> visited ?f1 = Inr (key, f2)"
    by (auto simp: zeroMap_def Let_def split: sum.splits)
  from assms k obtain val f3 where v: "rec \<lparr>ltyp = v, name = name info, hideType = True, isPointer = False\<rparr> visited f2 = Inr (val, f3)"
    by (auto simp: zeroMap_def Let_def split: sum.splits)
  from assms k v show ?thesis by (auto simp: zeroMap_def Let_def)
qed




subsection \<open>Array literals and the line count\<close>

lemma arrayElts_elements:
  "arrayElts (zero w n) ei vis k elts f = Inr (elts', f') \<Longrightarrow>
   \<exists>new. elts' = elts @ new \<and> length new = (if nilDefault w n (pkg f) ei then 0 else k)
        \<and> (\<forall>e \<in> set new. \<exists>g g'. pkg g = pkg f \<and> zero w n ei vis g = Inr (Some e, g'))"
proof (induction k arbitrary: elts f)
  case 0
  then show ?case by simp
next
  case (Suc k)
  let ?f1 = "f\<lparr>pos := pos f + 1\<rparr>"
  from Suc.prems obtain v g where g: "zero w n ei vis ?f1 = Inr (v, g)"
    by (auto split: sum.splits)
  from zero_nil_iff [OF g] have nd: "(v = None) = nilDefault w n (pkg f) ei" by simp
  from soundD(1) [OF zero_sound g] have p: "pkg g = pkg f" by (simp add: frame_def)
  show ?case
  proof (cases v)
    case None
    with Suc.prems g have "arrayElts (zero w n) ei vis k elts g = Inr (elts', f')" by simp
    from Suc.IH [OF this] None nd p show ?thesis by auto
  next
    case (Some x)
    with Suc.prems g have "arrayElts (zero w n) ei vis k (elts @ [x]) g = Inr (elts', f')" by simp
    from Suc.IH [OF this] obtain new where
      n: "elts' = (elts @ [x]) @ new" "length new = (if nilDefault w n (pkg g) ei then 0 else k)"
         "\<forall>e \<in> set new. \<exists>h h'. pkg h = pkg g \<and> zero w n ei vis h = Inr (Some e, h')" by blast
    have x: "\<exists>h h'. pkg h = pkg f \<and> zero w n ei vis h = Inr (Some x, h')"
      using g Some by (intro exI [of _ ?f1] exI [of _ g]) simp
    have "elts' = elts @ (x # new)" using n(1) by simp
    moreover have "length (x # new) = (if nilDefault w n (pkg f) ei then 0 else Suc k)"
      using n(2) nd Some p by simp
    moreover have "\<forall>e \<in> set (x # new). \<exists>h h'. pkg h = pkg f \<and> zero w n ei vis h = Inr (Some e, h')"
      using n(3) x p by auto
    ultimately show ?thesis by blast
  qed
qed

lemma zeroArray_loop:
  assumes "zero w (Suc n) info visited f = Inr (Some lit, f')" and "ltyp info = Array elem len"
  shows "0 \<le> len \<and> isCompositeLit lit \<and>
         (\<exists>f1. arrayElts (zero w n)
                  \<lparr>ltyp = Underlying w elem, name = asNamed elem, hideType = True, isPointer = False\<rparr>
                  visited (nat len) [] f = Inr (Elts lit, f1)
               \<and> f' = f1\<lparr>lines := lines f1 + int (length (Elts lit)) + 2, pos := pos f1 + 1\<rparr>)"
  using assms
  by (auto simp: zeroBody_def zeroArray_def Let_def split: if_splits option.splits sum.splits)

text \<open>
  C7 (as amended). When \<^verbatim>\<open>zero\<close> returns a literal for an array type of length
  \<open>len\<close>, then \<open>len\<close> is not negative, and the literal has \<open>len\<close> elements if the
  default of the element type is not nil, and no element if it is nil. Every element is
  what \<^verbatim>\<open>zero\<close> returns for the underlying type of the element type.
\<close>

theorem array_literal_elements:
  assumes "zero w (Suc n) info visited f = Inr (Some lit, f')" and "ltyp info = Array elem len"
  shows "0 \<le> len \<and> isCompositeLit lit
         \<and> length (Elts lit)
             = (if nilDefault w n (pkg f)
                     \<lparr>ltyp = Underlying w elem, name = asNamed elem, hideType = True, isPointer = False\<rparr>
                then 0 else nat len)
         \<and> (\<forall>e \<in> set (Elts lit). \<exists>g g'. pkg g = pkg f \<and>
               zero w n \<lparr>ltyp = Underlying w elem, name = asNamed elem, hideType = True,
                          isPointer = False\<rparr> visited g = Inr (Some e, g'))"
proof -
  from zeroArray_loop [OF assms] obtain f1 where
    l: "0 \<le> len" "isCompositeLit lit"
       "arrayElts (zero w n)
          \<lparr>ltyp = Underlying w elem, name = asNamed elem, hideType = True, isPointer = False\<rparr>
          visited (nat len) [] f = Inr (Elts lit, f1)" by blast
  from arrayElts_elements [OF l(3)] l(1,2) show ?thesis by simp
qed

theorem array_literal_elements_witness:
  "zero exampleWorld (Suc 1) (valueInfo (Array (Basic Int') 2)) [] (newFiller (Some 0))
     = Inr (Some (CompositeLit (Some (ArrayType 1 (Some (BasicLit 0 ''2'')) (Ident 0 ''int''))) 1
                    [BasicLit 2 ''0'', BasicLit 3 ''0''] 4),
            \<lparr>pkg = Some 0, pos = 4, lines = 4, existing = Map.empty, first = True\<rparr>)
   \<and> ltyp (valueInfo (Array (Basic Int') 2)) = Array (Basic Int') 2
   \<and> length (Elts (CompositeLit (Some (ArrayType 1 (Some (BasicLit 0 ''2'')) (Ident 0 ''int''))) 1
                    [BasicLit 2 ''0'', BasicLit 3 ''0''] 4)) = nat 2"
  using array_literal_elements
    [of exampleWorld 1 "valueInfo (Array (Basic Int') 2)" "[]" "newFiller (Some 0)"
        "CompositeLit (Some (ArrayType 1 (Some (BasicLit 0 ''2'')) (Ident 0 ''int''))) 1
           [BasicLit 2 ''0'', BasicLit 3 ''0''] 4"
        "\<lparr>pkg = Some 0, pos = 4, lines = 4, existing = Map.empty, first = True\<rparr>"
        "Basic Int'" 2]
  by (simp add: zero_eval example_defs FormatInt_def)

text \<open>
  C7 fails as stated: for \<^verbatim>\<open>type Broken struct { A [2]undefined }\<close> the array of
  length 2 is filled with no element, \<^verbatim>\<open>Broken{A: [2]invalid type{}}\<close>: the default of
  the invalid element type is nil, and the loop of the array case leaves a nil element out.
\<close>

theorem array_literal_elements_counterexample:
  "zeroValue exampleWorld 3 (Some 0) [] (litOf 10)
     = Inr (Some (CompositeLit (Some (Ident 0 ''Broken'')) 1
                    [KeyValueExpr (Some (Ident 2 ''A'')) 0
                       (Some (CompositeLit
                                (Some (ArrayType 2 (Some (BasicLit 0 ''2'')) (Ident 0 ''invalid type'')))
                                2 [] 5))] 6), 5)"
  by (simp add: zero_eval example_defs FormatInt_def)





subsection \<open>The queries by offset and by line\<close>

lemma swapOuts_nth:
  "k \<le> length xs div 2 \<Longrightarrow>
   length (swapOuts k xs) = length xs \<and>
   (\<forall>j < length xs. swapOuts k xs ! j
       = (if j < k \<or> length xs - k \<le> j then xs ! (length xs - 1 - j) else xs ! j))"
proof (induction k arbitrary: xs)
  case 0
  then show ?case by simp
next
  case (Suc i)
  let ?n = "length xs"
  let ?opp = "?n - 1 - i"
  let ?ys = "xs[i := xs ! ?opp, ?opp := xs ! i]"
  have len: "length ?ys = ?n" by simp
  from Suc.prems have i: "i < ?n div 2" by simp
  then have io: "i < ?opp" "?opp < ?n" by auto
  have "i \<le> length ?ys div 2" using i by simp
  from Suc.IH [OF this] have
    l: "length (swapOuts i ?ys) = ?n"
    and nth: "\<And>j. j < ?n \<Longrightarrow> swapOuts i ?ys ! j
       = (if j < i \<or> ?n - i \<le> j then ?ys ! (?n - 1 - j) else ?ys ! j)"
    by (simp_all)
  have s: "swapOuts (Suc i) xs = swapOuts i ?ys" by (simp add: Let_def)
  show ?case
  proof (intro conjI allI impI)
    show "length (swapOuts (Suc i) xs) = length xs" using s l by simp
  next
    fix j assume j: "j < length xs"
    show "swapOuts (Suc i) xs ! j
       = (if j < Suc i \<or> length xs - Suc i \<le> j then xs ! (length xs - 1 - j) else xs ! j)"
      unfolding s using nth [OF j] j io i
      by (auto simp: nth_list_update)
  qed
qed

lemma swapOuts_rev: "swapOuts (length xs div 2) xs = rev xs"
proof (rule nth_equalityI)
  show "length (swapOuts (length xs div 2) xs) = length (rev xs)"
    using swapOuts_nth [of "length xs div 2" xs] by simp
next
  fix j assume "j < length (swapOuts (length xs div 2) xs)"
  then have j: "j < length xs" using swapOuts_nth [of "length xs div 2" xs] by simp
  have "swapOuts (length xs div 2) xs ! j
        = (if j < length xs div 2 \<or> length xs - length xs div 2 \<le> j
           then xs ! (length xs - 1 - j) else xs ! j)"
    using swapOuts_nth [of "length xs div 2" xs] j by simp
  also have "\<dots> = xs ! (length xs - 1 - j)"
  proof (cases "j < length xs div 2 \<or> length xs - length xs div 2 \<le> j")
    case False
    then have "length xs - 1 - j = j" using j by auto
    with False show ?thesis by simp
  qed simp
  finally show "swapOuts (length xs div 2) xs ! j = rev xs ! j"
    using j by (simp add: rev_nth)
qed

lemma sorted_subseq: "subseq xs ys \<Longrightarrow> sorted ys \<Longrightarrow> sorted (xs :: int list)"
proof (induction rule: list_emb.induct)
  case (list_emb_Cons2 x y xs ys)
  then have "set xs \<subseteq> set ys" by (auto dest: list_emb_set)
  with list_emb_Cons2 show ?case by auto
qed simp_all

lemma subseq_one_append:
  "subseq a [x] \<Longrightarrow> subseq b ys \<Longrightarrow> subseq (a @ b) (x # ys)"
  using list_emb_append_mono [of "(=)" a "[x]" b ys] by simp

lemma visitLit_outs:
  assumes "visitLit w n formatNode p line site (outs, prev, err) = Inr (d, (outs', prev', err'))"
  shows "outs' = outs \<or> (\<exists>out. outs' = outs @ [out] \<and> Start out = startOff site)"
  using assms
  by (auto simp: visitLit_def prepareOutput_def split: if_splits option.splits sum.splits)

lemma Inspect_outs:
  "Inspect (visitLit w n formatNode p line) nd st = Inr st' \<Longrightarrow>
   \<exists>new. fst st' = fst st @ new \<and> subseq (map Start new) (map startOff (litSites nd))"
  "InspectList (visitLit w n formatNode p line) cs st = Inr st' \<Longrightarrow>
   \<exists>new. fst st' = fst st @ new \<and> subseq (map Start new) (map startOff (litSitesList cs))"
proof (induct "visitLit w n formatNode p line" nd st and "visitLit w n formatNode p line" cs st
       arbitrary: st' and st' rule: Inspect_InspectList.induct)
  case (1 cs st)
  then show ?case by simp
next
  case (2 site cs st)
  from "2.prems" obtain d st1 where v: "visitLit w n formatNode p line site st = Inr (d, st1)"
    by (auto split: sum.splits)
  obtain outs prev err where st: "st = (outs, prev, err)" by (cases st)
  obtain outs1 prev1 err1 where st1: "st1 = (outs1, prev1, err1)" by (cases st1)
  from visitLit_outs [OF v [unfolded st st1]]
  obtain one where one: "outs1 = outs @ one" "subseq (map Start one) [startOff site]"
    by auto
  show ?case
  proof (cases d)
    case True
    with "2.prems" v have "InspectList (visitLit w n formatNode p line) cs st1 = Inr st'" by simp
    from "2.hyps" [OF v refl True this] obtain new where
      new: "fst st' = fst st1 @ new" "subseq (map Start new) (map startOff (litSitesList cs))"
      by blast
    have "fst st' = fst st @ (one @ new)" using new(1) one(1) st st1 by simp
    moreover have "subseq (map Start (one @ new)) (map startOff (litSites (Node (Some site) cs)))"
      using subseq_one_append [OF one(2) new(2)] by simp
    ultimately show ?thesis by blast
  next
    case False
    with "2.prems" v have "st' = st1" by simp
    then have "fst st' = fst st @ one" using one(1) st st1 by simp
    moreover have "subseq (map Start one) (map startOff (litSites (Node (Some site) cs)))"
      using subseq_one_append [OF one(2), of "[]" "map startOff (litSitesList cs)"] by simp
    ultimately show ?thesis by blast
  qed
next
  case (3 st)
  then show ?case by simp
next
  case (4 c cs st)
  from "4.prems" obtain st1 where
    c: "Inspect (visitLit w n formatNode p line) c st = Inr st1"
    and r: "InspectList (visitLit w n formatNode p line) cs st1 = Inr st'"
    by (auto split: sum.splits)
  from "4.hyps"(1) [OF c] obtain a where
    a: "fst st1 = fst st @ a" "subseq (map Start a) (map startOff (litSites c))" by blast
  from "4.hyps"(2) [OF c r] obtain b where
    b: "fst st' = fst st1 @ b" "subseq (map Start b) (map startOff (litSitesList cs))" by blast
  have "fst st' = fst st @ (a @ b)" using a(1) b(1) by simp
  moreover have "subseq (map Start (a @ b)) (map startOff (litSitesList (c # cs)))"
    using list_emb_append_mono [OF a(2) b(2)] by simp
  ultimately show ?case by blast
qed

lemma byOffset_one: "byOffset w n formatNode p fileSize path offset = Inr outs \<Longrightarrow> length outs = 1"
  by (auto simp: byOffset_def split: sum.splits prod.splits)

text \<open>
  C9. \<^verbatim>\<open>byOffset\<close>, when it succeeds, writes exactly one record. \<^verbatim>\<open>byLine\<close>, when
  it succeeds, writes the records of the literals that \<^verbatim>\<open>ast.Inspect\<close> found, at least
  one, in the reverse of the order in which it found them; when the walk comes to the
  literals of the file in the order of their start offsets, the records are written from
  the literal that starts last to the literal that starts first.
\<close>

theorem query_results:
  "(byOffset w n formatNode p fileSize path offset = Inr outs \<longrightarrow> length outs = 1)
   \<and> (byLine w n formatNode p file line = Inr outs' \<longrightarrow>
        (\<exists>root found prev.
           file = Some root
           \<and> Inspect (visitLit w n formatNode p line) root ([], None, None) = Inr (found, prev, None)
           \<and> found \<noteq> [] \<and> outs' = rev found
           \<and> (sorted (map startOff (litSites root)) \<longrightarrow> sorted (rev (map Start outs')))))"
proof (intro conjI impI)
  assume "byOffset w n formatNode p fileSize path offset = Inr outs"
  then show "length outs = 1" by (rule byOffset_one)
next
  assume b: "byLine w n formatNode p file line = Inr outs'"
  then obtain root where root: "file = Some root"
    by (auto simp: byLine_def split: option.splits)
  from b root obtain found prev where
    i: "Inspect (visitLit w n formatNode p line) root ([], None, None) = Inr (found, prev, None)"
    and ne: "found \<noteq> []" and o: "outs' = swapOuts (length found div 2) found"
    by (auto simp: byLine_def split: sum.splits option.splits if_splits)
  from Inspect_outs(1) [OF i] have "subseq (map Start found) (map startOff (litSites root))"
    by simp
  then have "sorted (map startOff (litSites root)) \<Longrightarrow> sorted (map Start found)"
    by (rule sorted_subseq)
  with root i ne o
  show "\<exists>root found prev.
          file = Some root
          \<and> Inspect (visitLit w n formatNode p line) root ([], None, None) = Inr (found, prev, None)
          \<and> found \<noteq> [] \<and> outs' = rev found
          \<and> (sorted (map startOff (litSites root)) \<longrightarrow> sorted (rev (map Start outs')))"
    by (auto simp: swapOuts_rev rev_map)
qed

lemmas site_defs = pointSite_def sliceSite_def exampleFile_def examplePrinter_def

theorem query_results_witness:
  "byOffset exampleWorld 3 examplePrinter (Some 0) (Some 100)
      [LitNode (pointSite 28), LitNode sliceSite, OtherNode] 29
     = Inr [\<lparr>Start = 28, End = 30, Code = ''{}''\<rparr>]
   \<and> length [\<lparr>Start = 28, End = 30, Code = ''{}''\<rparr>] = 1
   \<and> byLine exampleWorld 3 examplePrinter (Some 0) (Some exampleFile) 3
     = Inr [\<lparr>Start = 36, End = 38, Code = ''{}''\<rparr>, \<lparr>Start = 32, End = 34, Code = ''{}''\<rparr>,
            \<lparr>Start = 28, End = 30, Code = ''{}''\<rparr>]
   \<and> sorted (map startOff (litSites exampleFile))
   \<and> sorted (rev (map Start [\<lparr>Start = 36, End = 38, Code = ''{}''\<rparr>,
                             \<lparr>Start = 32, End = 34, Code = ''{}''\<rparr>,
                             \<lparr>Start = 28, End = 30, Code = ''{}''\<rparr>]))"
proof -
  have d: "Suc (Suc (Suc 0)) div Suc (Suc 0) = Suc 0" by code_simp
  from query_results
    [of exampleWorld 3 examplePrinter "Some 0" "Some 100"
        "[LitNode (pointSite 28), LitNode sliceSite, OtherNode]" 29
        "[\<lparr>Start = 28, End = 30, Code = ''{}''\<rparr>]" "Some exampleFile" 3
        "[\<lparr>Start = 36, End = 38, Code = ''{}''\<rparr>, \<lparr>Start = 32, End = 34, Code = ''{}''\<rparr>,
          \<lparr>Start = 28, End = 30, Code = ''{}''\<rparr>]"]
  show ?thesis
    by (simp add: byOffset_def byLine_def findPos_def visitLit_def prepareOutput_def site_defs
        zero_eval example_defs d)
qed

subsection \<open>The order of the position markers\<close>

lemma within_Nil [simp]: "within lo hi []"
  by (simp add: within_def)

lemma within_single: "lo \<le> p \<Longrightarrow> p \<le> hi \<Longrightarrow> within lo hi (filter (\<lambda>p. p \<noteq> 0) [p])"
  by (simp add: within_def)






















subsection \<open>The bound on the nesting of calls\<close>

lemma extendsD: "extends rec rec' \<Longrightarrow> rec info vis f = Inr r \<Longrightarrow> rec' info vis f = Inr r"
  unfolding extends_def by blast

lemma zeroMap_extends:
  assumes x: "extends rec rec'" and z: "zeroMap w rec info vis k v kn vn f = Inr r"
  shows "zeroMap w rec' info vis k v kn vn f = Inr r"
proof -
  obtain e f' where r: "r = (e, f')" by (cases r)
  from zeroMap_entry [OF z [unfolded r]] obtain key val f2 f3 where
    k: "rec \<lparr>ltyp = k, name = name info, hideType = True, isPointer = False\<rparr> vis
          (f\<lparr>pos := pos f + 1\<rparr>) = Inr (key, f2)"
    and v: "rec \<lparr>ltyp = v, name = name info, hideType = True, isPointer = False\<rparr> vis f2 = Inr (val, f3)"
    by blast
  from z k v extendsD [OF x k] extendsD [OF x v] show ?thesis
    by (simp add: zeroMap_def Let_def)
qed

lemma arrayElts_extends:
  assumes x: "extends rec rec'"
  shows "arrayElts rec ei vis k elts f = Inr r \<Longrightarrow> arrayElts rec' ei vis k elts f = Inr r"
proof (induction k arbitrary: elts f)
  case 0
  then show ?case by simp
next
  case (Suc k)
  from Suc.prems obtain v g where g: "rec ei vis (f\<lparr>pos := pos f + 1\<rparr>) = Inr (v, g)"
    by (auto split: sum.splits)
  from Suc.prems g Suc.IH extendsD [OF x g] show ?case by (cases v) auto
qed

lemma zeroArray_extends:
  assumes x: "extends rec rec'" and z: "zeroArray w rec info vis elem len f = Inr r"
  shows "zeroArray w rec' info vis elem len f = Inr r"
  using z arrayElts_extends [OF x]
  by (auto simp: zeroArray_def Let_def split: if_splits option.splits sum.splits)

lemma structField_extends:
  assumes x: "extends rec rec'" and z: "structField rec first' imp vis fld elts lns f = Inr r"
  shows "structField rec' first' imp vis fld elts lns f = Inr r"
proof (cases "first' \<and> existing f (fname fld) \<noteq> None")
  case True
  with z show ?thesis by (simp add: structField_def)
next
  case False
  note nf = this
  show ?thesis
  proof (cases "existing f (fname fld) = None \<and> \<not> imp \<or> exported fld")
    case False
    with nf z show ?thesis by (auto simp: structField_def)
  next
    case True
    with nf z obtain v g where
      g: "rec \<lparr>ltyp = ftype fld, name = None, hideType = False, isPointer = False\<rparr> vis
            (f\<lparr>pos := pos f + 1\<rparr>) = Inr (v, g)"
      by (auto simp: structField_def Let_def split: sum.splits)
    from True nf z g extendsD [OF x g] show ?thesis
      by (auto simp: structField_def Let_def)
  qed
qed

lemma structFields_extends:
  assumes x: "extends rec rec'"
  shows "structFields rec first' imp vis flds acc = Inr r \<Longrightarrow>
         structFields rec' first' imp vis flds acc = Inr r"
proof (induction flds arbitrary: acc)
  case Nil
  then show ?case by simp
next
  case (Cons fld flds)
  obtain elts lns f where acc: "acc = (elts, lns, f)" by (cases acc)
  from Cons.prems acc obtain acc' where
    st: "structField rec first' imp vis fld elts lns f = Inr acc'"
    and rest: "structFields rec first' imp vis flds acc' = Inr r"
    by (auto split: sum.splits)
  from structField_extends [OF x st] Cons.IH [OF rest] acc show ?case by simp
qed

lemma zeroStruct_extends:
  assumes x: "extends rec rec'" and z: "zeroStruct w rec info vis s flds f = Inr r"
  shows "zeroStruct w rec' info vis s flds f = Inr r"
  using z structFields_extends [OF x]
  by (auto simp: zeroStruct_def Let_def split: if_splits option.splits sum.splits)

lemma zeroBody_extends:
  assumes x: "extends rec rec'"
  shows "extends (zeroBody w rec) (zeroBody w rec')"
  unfolding extends_def
proof (intro allI impI)
  fix info vis f r
  assume a: "zeroBody w rec info vis f = Inr r"
  show "zeroBody w rec' info vis f = Inr r"
  proof (cases "ltyp info")
    case (Map k v)
    with a zeroMap_extends [OF x] show ?thesis
      by (auto simp: zeroBody_def split: option.splits)
  next
    case (Array elem len)
    with a zeroArray_extends [OF x] show ?thesis by (simp add: zeroBody_def)
  next
    case (Named n)
    with a extendsD [OF x] show ?thesis by (simp add: zeroBody_def del: Underlying.simps)
  next
    case (Pointer elem)
    with a extendsD [OF x] show ?thesis by (auto simp: zeroBody_def split: if_splits)
  next
    case (Struct s flds)
    with a zeroStruct_extends [OF x] show ?thesis by (simp add: zeroBody_def)
  qed (use a in \<open>simp_all add: zeroBody_def\<close>)
qed

lemma zero_extends: "extends (zero w n) (zero w (Suc n))"
proof (induction n)
  case 0
  show ?case by (simp add: extends_def)
next
  case (Suc n)
  from zeroBody_extends [OF Suc] show ?case by simp
qed

lemma zero_deeper:
  "zero w n info visited f = Inr r \<Longrightarrow> zero w (n + k) info visited f = Inr r"
proof (induction k)
  case 0
  then show ?case by simp
next
  case (Suc k)
  from extendsD [OF zero_extends Suc.IH [OF Suc.prems]] show ?case by simp
qed

end
